theory Spec2Isabelle
  imports Main "HOL-Library.Multiset"
begin

section \<open>The flow-log analyser of \<open>flowlog_parser.py\<close>\<close>

text \<open>
  A shallow embedding of \<^verbatim>\<open>src/code/flowlog_parser.py\<close>. Python objects are
  modelled as follows.
  \<^item> Text is \<open>string\<close>; the model covers ASCII text: the white space of
    \<^verbatim>\<open>str.strip\<close>/\<^verbatim>\<open>str.split\<close> and the digits of \<^verbatim>\<open>int\<close> are the ASCII
    ones, and \<^verbatim>\<open>str.lower\<close> maps \<open>A\<close>..\<open>Z\<close> only. The interpreter's optional
    limit on the number of digits \<^verbatim>\<open>int\<close> accepts is not modelled.
  \<^item> Python integers are \<open>int\<close>; counters only grow from zero and are \<open>nat\<close>.
  \<^item> The two lookup dictionaries (\<^verbatim>\<open>tag_map\<close>, \<^verbatim>\<open>table\<close>) are only ever indexed
    and are maps. The two result dictionaries (\<^verbatim>\<open>defaultdict(int)\<close>) are
    iterated by the report writer in insertion order and are association lists.
  \<^item> Exceptions are values of \<open>py_error\<close>; the message text of an exception is
    not modelled.
  \<^item> Logging and the \<^verbatim>\<open>DEBUG\<close> printing to standard output change no state and
    are left out.
\<close>

subsection \<open>Constants\<close>

definition TAGMAP_PORT_IDX :: nat where "TAGMAP_PORT_IDX = 0"
definition TAGMAP_PROTO_IDX :: nat where "TAGMAP_PROTO_IDX = 1"
definition TAGMAP_TAG_IDX :: nat where "TAGMAP_TAG_IDX = 2"

definition IPMF_PORT_IDX :: nat where "IPMF_PORT_IDX = 0"
definition IPMF_PROTO_IDX :: nat where "IPMF_PROTO_IDX = 1"

definition CHUNK_SIZE :: nat where "CHUNK_SIZE = 1000"

definition V2_FIELDS_COUNT :: nat where "V2_FIELDS_COUNT = 14"
definition V2_DST_PORT_IDX :: nat where "V2_DST_PORT_IDX = 6"
definition V2_PROTO_NUM_IDX :: nat where "V2_PROTO_NUM_IDX = 7"

definition newline :: string where "newline = [CHR 0x0A]"

definition TAG_COUNT_FH :: string where
  "TAG_COUNT_FH = newline @ ''Tag Counts:'' @ newline @ ''Tag,Count'' @ newline"

definition COMB_COUNT_FH :: string where
  "COMB_COUNT_FH = newline @ ''Port/Protocol Combination Counts:'' @ newline
     @ ''Port,Protocol,Count'' @ newline"

definition Untagged :: string where "Untagged = ''Untagged''"

subsection \<open>Exceptions\<close>

datatype py_error =
    ValueError | IndexError | KeyError | IOError
  | TagMappingsException | ProtoMappingsException | FlowLogParserException

subsection \<open>Python's string operations\<close>

text \<open>\<^verbatim>\<open>str.isspace\<close> on an ASCII character.\<close>

definition is_space :: "char \<Rightarrow> bool" where
  "is_space c = (c \<in> set [CHR '' '', CHR 0x09, CHR 0x0A, CHR 0x0B, CHR 0x0C, CHR 0x0D,
                            CHR 0x1C, CHR 0x1D, CHR 0x1E, CHR 0x1F])"

text \<open>\<^verbatim>\<open>s.strip()\<close>: leading and trailing white space removed.\<close>

definition strip :: "string \<Rightarrow> string" where
  "strip s = rev (dropWhile is_space (rev (dropWhile is_space s)))"

text \<open>
  \<^verbatim>\<open>s.split()\<close>: the maximal runs of non-space characters, in order. The first
  argument is the word being read.
\<close>

fun split_from :: "string \<Rightarrow> string \<Rightarrow> string list" where
  "split_from w [] = (if w = [] then [] else [w])"
| "split_from w (c # cs) =
     (if is_space c then (if w = [] then split_from [] cs else w # split_from [] cs)
      else split_from (w @ [c]) cs)"

definition split :: "string \<Rightarrow> string list" where
  "split s = split_from [] s"

text \<open>\<^verbatim>\<open>s.lower()\<close> on ASCII text.\<close>

definition lower_char :: "char \<Rightarrow> char" where
  "lower_char c =
     (if c \<in> set ''ABCDEFGHIJKLMNOPQRSTUVWXYZ'' then char_of (of_char c + (32::nat)) else c)"

definition lower :: "string \<Rightarrow> string" where
  "lower s = map lower_char s"

text \<open>
  \<^verbatim>\<open>int(s)\<close> for a string: white space around the literal is ignored, one sign
  is allowed, then decimal digits, where a single underscore may stand between
  two digits. \<open>None\<close> is \<^verbatim>\<open>ValueError\<close>. On an ASCII string the white space
  that \<^verbatim>\<open>int\<close> ignores is blank, TAB, LF, VT, FF and CR only: the separators
  0x1C to 0x1F, which \<^verbatim>\<open>str.strip\<close> removes, make \<^verbatim>\<open>int\<close> fail.
\<close>

definition is_int_space :: "char \<Rightarrow> bool" where
  "is_int_space c = (c \<in> set [CHR '' '', CHR 0x09, CHR 0x0A, CHR 0x0B, CHR 0x0C, CHR 0x0D])"

definition int_strip :: "string \<Rightarrow> string" where
  "int_strip s = rev (dropWhile is_int_space (rev (dropWhile is_int_space s)))"

definition is_digit :: "char \<Rightarrow> bool" where
  "is_digit c = (c \<in> set ''0123456789'')"

definition digit_val :: "char \<Rightarrow> nat" where
  "digit_val c = of_char c - 48"

fun parse_digits :: "nat \<Rightarrow> string \<Rightarrow> nat option" where
  "parse_digits acc [] = Some acc"
| "parse_digits acc [c] = (if is_digit c then Some (10 * acc + digit_val c) else None)"
| "parse_digits acc (c # d # ds) =
     (if is_digit c then parse_digits (10 * acc + digit_val c) (d # ds)
      else if c = CHR ''_'' \<and> is_digit d then parse_digits (10 * acc + digit_val d) ds
      else None)"

definition parse_unsigned :: "string \<Rightarrow> nat option" where
  "parse_unsigned s =
     (case s of [] \<Rightarrow> None
      | c # cs \<Rightarrow> if is_digit c then parse_digits (digit_val c) cs else None)"

definition py_int :: "string \<Rightarrow> int option" where
  "py_int s =
     (case int_strip s of [] \<Rightarrow> None
      | c # cs \<Rightarrow>
          if c = CHR ''-'' then map_option (\<lambda>n. - int n) (parse_unsigned cs)
          else if c = CHR ''+'' then map_option int (parse_unsigned cs)
          else map_option int (parse_unsigned (c # cs)))"

text \<open>\<^verbatim>\<open>xs[i]\<close> for a constant index \<open>i \<ge> 0\<close>; \<open>None\<close> is \<^verbatim>\<open>IndexError\<close>.\<close>

definition item :: "'a list \<Rightarrow> nat \<Rightarrow> 'a option" where
  "item xs i = (if i < length xs then Some (xs ! i) else None)"

subsection \<open>Counting dictionaries\<close>

text \<open>
  A \<^verbatim>\<open>defaultdict(int)\<close> as the list of its items in insertion order.
  \<open>incr k d\<close> is \<^verbatim>\<open>d[k] += 1\<close>: a present key keeps its place, a new key is
  appended with count 1.
\<close>

type_synonym 'k counts = "('k \<times> nat) list"

fun incr :: "'k \<Rightarrow> 'k counts \<Rightarrow> 'k counts" where
  "incr k [] = [(k, 1)]"
| "incr k ((k', n) # kvs) = (if k = k' then (k', n + 1) # kvs else (k', n) # incr k kvs)"

text \<open>The sum of the values of a counting dictionary, and the count of one key.\<close>

definition sum_counts :: "'k counts \<Rightarrow> nat" where
  "sum_counts d = sum_list (map snd d)"

fun count_of :: "'k counts \<Rightarrow> 'k \<Rightarrow> nat" where
  "count_of [] k = 0"
| "count_of ((k', n) # kvs) k = (if k = k' then n else count_of kvs k)"

subsection \<open>The parser object\<close>

text \<open>
  The fields of \<^verbatim>\<open>DefaultFlowLogsParser\<close> that carry data. A path is
  \<open>None\<close> for Python's \<^verbatim>\<open>None\<close>; \<open>given\<close> is the truth test \<^verbatim>\<open>if path:\<close>,
  which the empty string fails as well.
\<close>

record parser =
  version :: int
  flowlogs :: "string option"
  mapfile :: "string option"
  outputfile :: "string option"
  proto_map_file :: "string option"
  tag_map :: "int \<times> string \<rightharpoonup> string"
  table :: "int \<rightharpoonup> string"
  tag_count :: "string counts"
  combinations_count :: "(int \<times> string) counts"
  errors :: nat

definition given :: "string option \<Rightarrow> string option" where
  "given path = (case path of None \<Rightarrow> None | Some f \<Rightarrow> if f = [] then None else Some f)"

definition init_parser ::
  "int \<Rightarrow> string option \<Rightarrow> string option \<Rightarrow> string option \<Rightarrow> string option \<Rightarrow> parser" where
  "init_parser v logs mappings output pmf =
     \<lparr>version = v, flowlogs = logs, mapfile = mappings, outputfile = output,
      proto_map_file = pmf, tag_map = Map.empty, table = Map.empty,
      tag_count = [], combinations_count = [], errors = 0\<rparr>"

subsection \<open>Analysing a batch of lines\<close>

text \<open>
  One iteration of the loop of \<^verbatim>\<open>DefaultFlowLogsParser._analyze_flow_logs\<close>.
  The handler catches \<^verbatim>\<open>ValueError\<close> and \<^verbatim>\<open>IndexError\<close>; the \<^verbatim>\<open>KeyError\<close> of
  \<^verbatim>\<open>self.table[...]\<close> is not caught and leaves the loop (\<open>Inl\<close>). The
  statements run in the source's order: the protocol field is converted and
  looked up before the port field is converted.
\<close>

definition analyze_line :: "parser \<Rightarrow> string \<Rightarrow> py_error + parser" where
  "analyze_line p line =
     (let fields = split (strip line) in
      if length fields < V2_FIELDS_COUNT then Inr (p\<lparr>errors := errors p + 1\<rparr>)
      else
        (case item fields V2_DST_PORT_IDX of
           None \<Rightarrow> Inr (p\<lparr>errors := errors p + 1\<rparr>)
         | Some dstport \<Rightarrow>
        (case item fields V2_PROTO_NUM_IDX of
           None \<Rightarrow> Inr (p\<lparr>errors := errors p + 1\<rparr>)
         | Some proto_field \<Rightarrow>
        (case py_int proto_field of
           None \<Rightarrow> Inr (p\<lparr>errors := errors p + 1\<rparr>)
         | Some proto_num \<Rightarrow>
        (case table p proto_num of
           None \<Rightarrow> Inl KeyError
         | Some protocol_name \<Rightarrow>
        (case py_int dstport of
           None \<Rightarrow> Inr (p\<lparr>errors := errors p + 1\<rparr>)
         | Some port \<Rightarrow>
            (let key = (port, lower protocol_name);
                 tag = (case tag_map p key of Some t \<Rightarrow> t | None \<Rightarrow> Untagged)
             in Inr (p\<lparr>tag_count := incr tag (tag_count p),
                       combinations_count := incr key (combinations_count p)\<rparr>))))))))"

text \<open>
  The loop over the batch. The object is mutated in place, so when an
  exception leaves the loop the object keeps what the earlier lines did to it:
  the result is the object together with the exception, if any.
\<close>

fun analyze_lines :: "parser \<Rightarrow> string list \<Rightarrow> parser \<times> py_error option" where
  "analyze_lines p [] = (p, None)"
| "analyze_lines p (line # rest) =
     (case analyze_line p line of
        Inl e \<Rightarrow> (p, Some e)
      | Inr p' \<Rightarrow> analyze_lines p' rest)"

text \<open>
  \<^verbatim>\<open>DefaultFlowLogsParser._analyze_flow_logs\<close> (a name cannot begin with an
  underscore here). The method takes \<^verbatim>\<open>counts_lock\<close> and runs the loop; in this
  sequential model taking the lock has no effect.
\<close>

definition analyze_flow_logs_batch :: "parser \<Rightarrow> string list \<Rightarrow> parser \<times> py_error option" where
  "analyze_flow_logs_batch p lines = analyze_lines p lines"

subsection \<open>The files\<close>

text \<open>
  What the program reads from its environment. \<open>csv_rows w f\<close> are the rows that
  \<^verbatim>\<open>csv.reader\<close> yields for the file \<open>f\<close>, \<open>text_lines w f\<close> the lines of the
  text file \<open>f\<close>; both are \<open>None\<close> when \<^verbatim>\<open>open\<close> raises \<^verbatim>\<open>IOError\<close>.
  \<open>writable w f\<close> tells whether \<open>f\<close> can be opened for writing. \<open>socket_vars w\<close>
  are the integer-valued items of \<^verbatim>\<open>vars(socket)\<close>.
\<close>

record world =
  csv_rows :: "string \<Rightarrow> string list list option"
  text_lines :: "string \<Rightarrow> string list option"
  writable :: "string \<Rightarrow> bool"
  socket_vars :: "(string \<times> int) list"

text \<open>\<^verbatim>\<open>read_csv_file\<close>: an \<^verbatim>\<open>IOError\<close> is swallowed and the buffer is returned.\<close>

definition read_csv_file :: "world \<Rightarrow> string \<Rightarrow> string list list" where
  "read_csv_file w fname = (case csv_rows w fname of None \<Rightarrow> [] | Some rows \<Rightarrow> rows)"

subsection \<open>Loading the tag mappings\<close>

text \<open>The loop of \<^verbatim>\<open>TagMappings.process\<close>, with the exception that leaves it.\<close>

fun tag_rows ::
  "string list list \<Rightarrow> (int \<times> string \<times> string) list \<Rightarrow> py_error + (int \<times> string \<times> string) list" where
  "tag_rows [] buff = Inr buff"
| "tag_rows (line # rest) buff =
     (case item line TAGMAP_PORT_IDX of
        None \<Rightarrow> Inl IndexError
      | Some c0 \<Rightarrow>
          if c0 = ''dstport'' then tag_rows rest buff
          else
            (case py_int c0 of
               None \<Rightarrow> Inl ValueError
             | Some port \<Rightarrow>
            (case item line TAGMAP_PROTO_IDX of
               None \<Rightarrow> Inl IndexError
             | Some proto \<Rightarrow>
            (case item line TAGMAP_TAG_IDX of
               None \<Rightarrow> Inl IndexError
             | Some tag \<Rightarrow> tag_rows rest (buff @ [(port, proto, tag)])))))"

definition TagMappings_process :: "world \<Rightarrow> string \<Rightarrow> py_error + (int \<times> string \<times> string) list" where
  "TagMappings_process w fname =
     (case tag_rows (read_csv_file w fname) [] of
        Inl e \<Rightarrow> Inl TagMappingsException
      | Inr buff \<Rightarrow> Inr buff)"

text \<open>\<^verbatim>\<open>self.tag_map[(entry[0], entry[1])] = entry[2]\<close> for every entry, in order.\<close>

fun store_tags :: "(int \<times> string \<times> string) list \<Rightarrow> (int \<times> string \<rightharpoonup> string) \<Rightarrow> (int \<times> string \<rightharpoonup> string)" where
  "store_tags [] m = m"
| "store_tags ((port, proto, tag) # rest) m = store_tags rest (m((port, proto) \<mapsto> tag))"

definition read_mappings_file :: "world \<Rightarrow> parser \<Rightarrow> py_error + parser" where
  "read_mappings_file w p =
     (case given (mapfile p) of
        None \<Rightarrow> Inr p
      | Some fname \<Rightarrow>
          (case TagMappings_process w fname of
             Inl e \<Rightarrow> Inl FlowLogParserException
           | Inr buff \<Rightarrow> Inr (p\<lparr>tag_map := store_tags buff (tag_map p)\<rparr>)))"

subsection \<open>Loading the protocol table\<close>

text \<open>
  The loop of \<^verbatim>\<open>ProtoMappings.process\<close>. The \<^verbatim>\<open>try\<close> statement encloses the
  whole loop, so an exception ends the loop; the buffer filled so far is kept.
\<close>

fun proto_rows ::
  "string list list \<Rightarrow> (int \<times> string) list \<Rightarrow> (int \<times> string) list \<times> py_error option" where
  "proto_rows [] buff = (buff, None)"
| "proto_rows (line # rest) buff =
     (case item line IPMF_PORT_IDX of
        None \<Rightarrow> (buff, Some IndexError)
      | Some c0 \<Rightarrow>
     (case py_int c0 of
        None \<Rightarrow> (buff, Some ValueError)
      | Some num \<Rightarrow>
     (case item line IPMF_PROTO_IDX of
        None \<Rightarrow> (buff, Some IndexError)
      | Some name \<Rightarrow> proto_rows rest (buff @ [(num, lower name)]))))"

definition ProtoMappings_process :: "world \<Rightarrow> string \<Rightarrow> py_error + (int \<times> string) list" where
  "ProtoMappings_process w fname =
     (case proto_rows (read_csv_file w fname) [] of
        (buff, None) \<Rightarrow> Inr buff
      | (buff, Some e) \<Rightarrow>
          if e = ValueError then Inr buff
          else if e = IndexError then Inl ProtoMappingsException
          else Inl e)"

fun store_protos :: "(int \<times> string) list \<Rightarrow> (int \<rightharpoonup> string) \<Rightarrow> (int \<rightharpoonup> string)" where
  "store_protos [] m = m"
| "store_protos ((num, name) # rest) m = store_protos rest (m(num \<mapsto> name))"

definition IPPROTO_prefix :: string where "IPPROTO_prefix = ''IPPROTO_''"

definition builtin_table :: "world \<Rightarrow> (int \<rightharpoonup> string)" where
  "builtin_table w =
     store_protos
       (map (\<lambda>(name, num). (num, drop (length IPPROTO_prefix) name))
          (filter (\<lambda>(name, num). take (length IPPROTO_prefix) name = IPPROTO_prefix)
             (socket_vars w)))
       Map.empty"

definition read_proto_mappings :: "world \<Rightarrow> parser \<Rightarrow> py_error + parser" where
  "read_proto_mappings w p =
     (case given (proto_map_file p) of
        Some fname \<Rightarrow>
          (case ProtoMappings_process w fname of
             Inl e \<Rightarrow> Inl FlowLogParserException
           | Inr buff \<Rightarrow> Inr (p\<lparr>table := store_protos buff (table p)\<rparr>))
      | None \<Rightarrow> Inr (p\<lparr>table := builtin_table w\<rparr>))"

subsection \<open>Writing the report\<close>

text \<open>\<^verbatim>\<open>str(n)\<close> for an integer, as \<^verbatim>\<open>"{}".format\<close> prints it.\<close>

definition digit_char :: "nat \<Rightarrow> char" where
  "digit_char d = char_of (48 + d)"

function str_nat :: "nat \<Rightarrow> string" where
  "str_nat n = (if n < 10 then [digit_char n] else str_nat (n div 10) @ [digit_char (n mod 10)])"
  by pat_completeness auto
termination
  by (relation "measure id") auto

declare str_nat.simps [simp del]

definition str_int :: "int \<Rightarrow> string" where
  "str_int i = (if i < 0 then CHR ''-'' # str_nat (nat (- i)) else str_nat (nat i))"

definition report_text :: "parser \<Rightarrow> string" where
  "report_text p =
     TAG_COUNT_FH
     @ concat (map (\<lambda>(key, val). key @ '' '' @ str_nat val @ newline) (tag_count p))
     @ COMB_COUNT_FH
     @ concat (map (\<lambda>((port, proto), val).
                  str_int port @ '' '' @ proto @ '' '' @ str_nat val @ newline)
               (combinations_count p))"

text \<open>
  \<^verbatim>\<open>_write_output_file\<close>: the result is the file written, as its path and
  text, or \<open>None\<close> when nothing is written.
\<close>

definition write_output_file :: "world \<Rightarrow> parser \<Rightarrow> py_error + (string \<times> string) option" where
  "write_output_file w p =
     (case given (outputfile p) of
        None \<Rightarrow> Inr None
      | Some fname \<Rightarrow>
          if writable w fname then Inr (Some (fname, report_text p)) else Inl IOError)"

subsection \<open>The run over the input file\<close>

text \<open>
  \<^verbatim>\<open>list(islice(handle, CHUNK_SIZE))\<close> until it is empty: the batches of a file.
\<close>

function chunks :: "nat \<Rightarrow> 'a list \<Rightarrow> 'a list list" where
  "chunks n xs =
     (let lines = take n xs in
      if length lines = 0 then [] else lines # chunks n (drop n xs))"
  by pat_completeness auto
termination
  by (relation "measure (\<lambda>(n, xs). length xs)") auto

declare chunks.simps [simp del]

text \<open>
  The executor has one worker: the batches are analysed one after the other, in
  the order they were submitted, and the \<^verbatim>\<open>with\<close> statement waits for the
  last one. Nobody asks a future for its result, so an exception that leaves a
  batch is dropped there, and the next batch starts from the object as the
  failed batch left it.
\<close>

fun submit_all :: "parser \<Rightarrow> string list list \<Rightarrow> parser" where
  "submit_all p [] = p"
| "submit_all p (lines # rest) = submit_all (fst (analyze_flow_logs_batch p lines)) rest"

definition analyze_flow_logs :: "world \<Rightarrow> parser \<Rightarrow> parser \<times> (py_error + (string \<times> string) option)" where
  "analyze_flow_logs w p =
     (case given (flowlogs p) of
        None \<Rightarrow> (p, Inr None)
      | Some fname \<Rightarrow>
          (case text_lines w fname of
             None \<Rightarrow> (p, Inl IOError)
           | Some all_lines \<Rightarrow>
               (let p' = submit_all p (chunks CHUNK_SIZE all_lines)
                in (p', write_output_file w p'))))"

section \<open>Properties\<close>

subsection \<open>Notions of the specification\<close>

text \<open>
  A line passes validation when it has at least 14 white-space separated
  fields and its destination-port field (index 6) and protocol-number field
  (index 7) are both numeric, that is, accepted by \<^verbatim>\<open>int\<close>.
\<close>

definition passes_validation :: "string \<Rightarrow> bool" where
  "passes_validation line =
     (let fields = split (strip line) in
      V2_FIELDS_COUNT \<le> length fields
      \<and> py_int (fields ! V2_DST_PORT_IDX) \<noteq> None
      \<and> py_int (fields ! V2_PROTO_NUM_IDX) \<noteq> None)"

text \<open>
  The protocol number of a line is known when the table resolves it; a line
  whose protocol field is never looked up (too few fields, or a field that is
  no number) counts as known.
\<close>

definition protocol_known :: "(int \<rightharpoonup> string) \<Rightarrow> string \<Rightarrow> bool" where
  "protocol_known tbl line =
     (let fields = split (strip line) in
      if length fields < V2_FIELDS_COUNT then True
      else (case py_int (fields ! V2_PROTO_NUM_IDX) of
              None \<Rightarrow> True
            | Some num \<Rightarrow> tbl num \<noteq> None))"


text \<open>
  A valid version-2 record with the given destination port and protocol number:
  at least 14 fields, and port and protocol fields that \<^verbatim>\<open>int\<close> reads as these
  numbers.
\<close>

definition valid_record :: "string \<Rightarrow> int \<Rightarrow> int \<Rightarrow> bool" where
  "valid_record line port num =
     (let fields = split (strip line) in
      V2_FIELDS_COUNT \<le> length fields
      \<and> py_int (fields ! V2_DST_PORT_IDX) = Some port
      \<and> py_int (fields ! V2_PROTO_NUM_IDX) = Some num)"

text \<open>
  The combination under which a line is counted: the port and the lower-case
  protocol name of a valid record whose protocol number the table resolves;
  \<open>None\<close> for every other line.
\<close>

definition record_key :: "(int \<rightharpoonup> string) \<Rightarrow> string \<Rightarrow> (int \<times> string) option" where
  "record_key tbl line =
     (let fields = split (strip line) in
      if length fields < V2_FIELDS_COUNT then None
      else (case py_int (fields ! V2_PROTO_NUM_IDX) of
              None \<Rightarrow> None
            | Some num \<Rightarrow>
           (case tbl num of
              None \<Rightarrow> None
            | Some name \<Rightarrow>
           (case py_int (fields ! V2_DST_PORT_IDX) of
              None \<Rightarrow> None
            | Some port \<Rightarrow> Some (port, lower name)))))"

text \<open>The combinations of the lines of a batch that are counted, in order.\<close>

definition counted_keys :: "(int \<rightharpoonup> string) \<Rightarrow> string list \<Rightarrow> (int \<times> string) list" where
  "counted_keys tbl lines = List.map_filter (record_key tbl) lines"

text \<open>The tag a combination resolves to.\<close>

definition resolved_tag :: "(int \<times> string \<rightharpoonup> string) \<Rightarrow> int \<times> string \<Rightarrow> string" where
  "resolved_tag m key = (case m key of Some t \<Rightarrow> t | None \<Rightarrow> Untagged)"

subsection \<open>The batches of the unit tests\<close>

definition line_49153 :: string where
  "line_49153 = ''2 123456789012 eni-0a1b2c3d 10.0.1.201 198.51.100.2 443 49153 6 25 20000 1620140761 1620140821 ACCEPT OK''"

definition line_49154 :: string where
  "line_49154 = ''2 123456789012 eni-4d3c2b1a 192.168.1.100 203.0.113.101 23 49154 6 15 12000 1620140761 1620140821 REJECT OK''"

definition line_49155 :: string where
  "line_49155 = ''2 123456789012 eni-5e6f7g8h 192.168.1.101 198.51.100.3 25 49155 6 10 8000 1620140761 1620140821 ACCEPT OK''"

definition test_lines :: "string list" where
  "test_lines = [line_49153, line_49154, [], line_49155]"

text \<open>The object of \<^verbatim>\<open>test_positve_case\<close> before the batch is analysed.\<close>

definition test_parser :: parser where
  "test_parser =
     (init_parser 2 (Some ''dummy'') (Some ''dummy'') (Some ''dummy'') None)
       \<lparr>tag_map := [(49153, ''tcp'') \<mapsto> ''sv_P1'', (49154, ''tcp'') \<mapsto> ''sv_P1''],
        table := [6 \<mapsto> ''tcp'']\<rparr>"

text \<open>A world whose only readable file holds the given lines; every file is writable.\<close>

definition world_with :: "string \<Rightarrow> string list \<Rightarrow> world" where
  "world_with fname lines =
     \<lparr>csv_rows = (\<lambda>f. None),
      text_lines = (\<lambda>f. if f = fname then Some lines else None),
      writable = (\<lambda>f. True),
      socket_vars = []\<rparr>"

text \<open>A well-formed record of protocol 17, which the table of the test does not hold.\<close>

definition line_udp :: string where
  "line_udp = ''2 123456789012 eni-0a1b2c3d 10.0.1.201 198.51.100.2 443 49153 17 25 20000 1620140761 1620140821 ACCEPT OK''"

text \<open>A well-formed record whose destination-port field is \<open>-1\<close>.\<close>

definition line_neg_port :: string where
  "line_neg_port = ''2 123456789012 eni-0a1b2c3d 10.0.1.201 198.51.100.2 443 -1 6 25 20000 1620140761 1620140821 ACCEPT OK''"

text \<open>Records of 14 fields whose protocol field, or port field, is no number.\<close>

definition line_bad_proto :: string where
  "line_bad_proto = ''2 123456789012 eni-0a1b2c3d 10.0.1.201 198.51.100.2 443 49153 tcp 25 20000 1620140761 1620140821 ACCEPT OK''"

definition line_bad_port :: string where
  "line_bad_port = ''2 123456789012 eni-0a1b2c3d 10.0.1.201 198.51.100.2 443 http 6 25 20000 1620140761 1620140821 ACCEPT OK''"

text \<open>
  Rows of a protocol-number file: an assigned number, the unassigned range,
  and an assigned number after it.
\<close>

definition iana_rows :: "string list list" where
  "iana_rows = [[''6'', ''TCP''], [''146-252'', ''Unassigned''], [''255'', ''Reserved'']]"

text \<open>A world whose only readable file is a CSV file with the given rows.\<close>

definition csv_world :: "string \<Rightarrow> string list list \<Rightarrow> world" where
  "csv_world fname rows =
     \<lparr>csv_rows = (\<lambda>f. if f = fname then Some rows else None),
      text_lines = (\<lambda>f. None),
      writable = (\<lambda>f. True),
      socket_vars = []\<rparr>"

text \<open>An object with an output path and no input path.\<close>

definition no_input_parser :: parser where
  "no_input_parser = init_parser 2 None None (Some ''output.txt'') None"

text \<open>
  An object without paths whose table holds protocol 6, and one whose
  tag-mapping path names a file that cannot be opened.
\<close>

definition no_paths_parser :: parser where
  "no_paths_parser = (init_parser 2 None None None None)\<lparr>table := [6 \<mapsto> ''tcp'']\<rparr>"

definition missing_map_parser :: parser where
  "missing_map_parser =
     (init_parser 2 None (Some ''missing.csv'') None (Some ''missing.csv''))
       \<lparr>table := [6 \<mapsto> ''tcp'']\<rparr>"

subsection \<open>Facts about the loop\<close>

lemma sum_counts_incr: "sum_counts (incr k d) = sum_counts d + 1"
  by (induction d) (auto simp: sum_counts_def)

lemma count_of_incr: "count_of (incr k d) k' = (if k' = k then count_of d k + 1 else count_of d k')"
  by (induction d) auto

lemma keys_incr: "set (map fst (incr k d)) = insert k (set (map fst d))"
  by (induction k d rule: incr.induct) (simp_all add: insert_commute)

lemma analyze_line_unfold:
  "analyze_line p line =
     (let fields = split (strip line) in
      if length fields < 14 then Inr (p\<lparr>errors := errors p + 1\<rparr>)
      else
        (case py_int (fields ! 7) of
           None \<Rightarrow> Inr (p\<lparr>errors := errors p + 1\<rparr>)
         | Some proto_num \<Rightarrow>
        (case table p proto_num of
           None \<Rightarrow> Inl KeyError
         | Some protocol_name \<Rightarrow>
        (case py_int (fields ! 6) of
           None \<Rightarrow> Inr (p\<lparr>errors := errors p + 1\<rparr>)
         | Some port \<Rightarrow>
             Inr (p\<lparr>tag_count :=
                       incr (case tag_map p (port, lower protocol_name) of
                               Some t \<Rightarrow> t | None \<Rightarrow> Untagged) (tag_count p),
                     combinations_count :=
                       incr (port, lower protocol_name) (combinations_count p)\<rparr>)))))"
  by (simp add: analyze_line_def item_def Let_def V2_FIELDS_COUNT_def V2_DST_PORT_IDX_def
      V2_PROTO_NUM_IDX_def split: option.splits)

lemma analyze_line_frame:
  assumes "analyze_line p line = Inr p'"
  shows "table p' = table p \<and> tag_map p' = tag_map p \<and> outputfile p' = outputfile p
         \<and> flowlogs p' = flowlogs p \<and> mapfile p' = mapfile p
         \<and> proto_map_file p' = proto_map_file p \<and> version p' = version p"
  using assms
  by (auto simp: analyze_line_unfold Let_def split: if_splits option.splits)

lemma analyze_line_sums:
  assumes "analyze_line p line = Inr p'"
  shows "sum_counts (tag_count p') + sum_counts (combinations_count p)
         = sum_counts (combinations_count p') + sum_counts (tag_count p)"
  using assms
  by (auto simp: analyze_line_unfold Let_def sum_counts_incr split: if_splits option.splits)

lemma analyze_lines_sums:
  "sum_counts (tag_count (fst (analyze_lines p lines))) + sum_counts (combinations_count p)
   = sum_counts (combinations_count (fst (analyze_lines p lines))) + sum_counts (tag_count p)"
proof (induction lines arbitrary: p)
  case Nil
  show ?case by simp
next
  case (Cons line rest)
  show ?case
  proof (cases "analyze_line p line")
    case (Inl e)
    then show ?thesis by simp
  next
    case (Inr p')
    from analyze_line_sums [OF Inr] Cons.IH [of p'] Inr
    show ?thesis by simp
  qed
qed

lemma submit_all_sums:
  "sum_counts (tag_count (submit_all p cs)) + sum_counts (combinations_count p)
   = sum_counts (combinations_count (submit_all p cs)) + sum_counts (tag_count p)"
proof (induction cs arbitrary: p)
  case Nil
  show ?case by simp
next
  case (Cons c cs)
  from Cons.IH [of "fst (analyze_lines p c)"] analyze_lines_sums [of p c]
  show ?case by (simp add: analyze_flow_logs_batch_def)
qed

lemma analyze_flow_logs_sums:
  "sum_counts (tag_count (fst (analyze_flow_logs w p))) + sum_counts (combinations_count p)
   = sum_counts (combinations_count (fst (analyze_flow_logs w p))) + sum_counts (tag_count p)"
  by (simp add: analyze_flow_logs_def Let_def submit_all_sums split: option.splits)

lemma analyze_line_known:
  assumes "protocol_known (table p) line"
  shows "\<exists>p'. analyze_line p line = Inr p' \<and> table p' = table p
           \<and> sum_counts (combinations_count p')
             = sum_counts (combinations_count p) + (if passes_validation line then 1 else 0)"
  using assms
  by (auto simp: analyze_line_unfold protocol_known_def passes_validation_def Let_def
      sum_counts_incr V2_FIELDS_COUNT_def V2_DST_PORT_IDX_def V2_PROTO_NUM_IDX_def
      split: if_splits option.splits)

lemma analyze_lines_known:
  assumes "list_all (protocol_known (table p)) lines"
  shows "snd (analyze_lines p lines) = None \<and> table (fst (analyze_lines p lines)) = table p
         \<and> sum_counts (combinations_count (fst (analyze_lines p lines)))
           = sum_counts (combinations_count p) + length (filter passes_validation lines)"
  using assms
proof (induction lines arbitrary: p)
  case Nil
  show ?case by simp
next
  case (Cons line rest)
  from Cons.prems have k: "protocol_known (table p) line" by simp
  from analyze_line_known [OF k] obtain p' where
    p': "analyze_line p line = Inr p'" "table p' = table p"
      "sum_counts (combinations_count p')
       = sum_counts (combinations_count p) + (if passes_validation line then 1 else 0)"
    by blast
  from Cons.prems p'(2) have "list_all (protocol_known (table p')) rest" by simp
  from Cons.IH [OF this] p' show ?case by simp
qed

lemma concat_chunks: "0 < n \<Longrightarrow> concat (chunks n xs) = xs"
proof (induction n xs rule: chunks.induct)
  case (1 n xs)
  show ?case
  proof (cases "length (take n xs) = 0")
    case True
    with "1.prems" have "xs = []" by (cases xs) (auto simp: min_def split: if_splits)
    then show ?thesis by (simp add: chunks.simps [of n "[]"])
  next
    case False
    with "1.IH" "1.prems" have "concat (chunks n (drop n xs)) = drop n xs" by simp
    moreover from False have "chunks n xs = take n xs # chunks n (drop n xs)"
      by (simp add: chunks.simps [of n xs] Let_def)
    ultimately show ?thesis by simp
  qed
qed

lemma submit_all_known:
  assumes "list_all (protocol_known (table p)) (concat cs)"
  shows "table (submit_all p cs) = table p
         \<and> sum_counts (combinations_count (submit_all p cs))
           = sum_counts (combinations_count p) + length (filter passes_validation (concat cs))"
  using assms
proof (induction cs arbitrary: p)
  case Nil
  show ?case by simp
next
  case (Cons c cs)
  from Cons.prems have c: "list_all (protocol_known (table p)) c" by simp
  note a = analyze_lines_known [OF c]
  from Cons.prems a have "list_all (protocol_known (table (fst (analyze_lines p c)))) (concat cs)"
    by simp
  from Cons.IH [OF this] a show ?case by (simp add: analyze_flow_logs_batch_def)
qed

subsection \<open>What the loop leaves alone\<close>

lemma analyze_lines_frame:
  "table (fst (analyze_lines p lines)) = table p
   \<and> tag_map (fst (analyze_lines p lines)) = tag_map p
   \<and> outputfile (fst (analyze_lines p lines)) = outputfile p"
proof (induction lines arbitrary: p)
  case Nil
  show ?case by simp
next
  case (Cons line rest)
  show ?case
  proof (cases "analyze_line p line")
    case (Inl e)
    then show ?thesis by simp
  next
    case (Inr p')
    from analyze_line_frame [OF Inr] Cons.IH [of p'] Inr show ?thesis by simp
  qed
qed

lemma submit_all_frame:
  "table (submit_all p cs) = table p \<and> tag_map (submit_all p cs) = tag_map p
   \<and> outputfile (submit_all p cs) = outputfile p"
proof (induction cs arbitrary: p)
  case Nil
  show ?case by simp
next
  case (Cons c cs)
  from Cons.IH [of "fst (analyze_lines p c)"] analyze_lines_frame [of p c]
  show ?case by (simp add: analyze_flow_logs_batch_def)
qed

text \<open>With an empty tag mapping the only tag that is ever counted is \<open>Untagged\<close>.\<close>

lemma analyze_line_untagged:
  assumes "tag_map p = Map.empty" and "analyze_line p line = Inr p'"
  shows "tag_count p' = tag_count p \<or> tag_count p' = incr Untagged (tag_count p)"
  using assms
  by (auto simp: analyze_line_unfold Let_def split: if_splits option.splits)

lemma analyze_lines_untagged:
  assumes "tag_map p = Map.empty"
  shows "set (map fst (tag_count (fst (analyze_lines p lines))))
         \<subseteq> insert Untagged (set (map fst (tag_count p)))"
  using assms
proof (induction lines arbitrary: p)
  case Nil
  show ?case by auto
next
  case (Cons line rest)
  show ?case
  proof (cases "analyze_line p line")
    case (Inl e)
    then show ?thesis by auto
  next
    case (Inr p')
    from analyze_line_frame [OF Inr] Cons.prems have e: "tag_map p' = Map.empty" by simp
    have "set (map fst (tag_count p')) \<subseteq> insert Untagged (set (map fst (tag_count p)))"
      using analyze_line_untagged [OF Cons.prems Inr]
    proof
      assume "tag_count p' = tag_count p"
      then show ?thesis by auto
    next
      assume "tag_count p' = incr Untagged (tag_count p)"
      then have "set (map fst (tag_count p')) = insert Untagged (set (map fst (tag_count p)))"
        by (simp only: keys_incr)
      then show ?thesis by (simp only: subset_refl)
    qed
    with Cons.IH [OF e] Inr show ?thesis by auto
  qed
qed

subsection \<open>Evaluating the example batches\<close>

lemma fields_line_49153:
  "split (strip line_49153) =
     [''2'', ''123456789012'', ''eni-0a1b2c3d'', ''10.0.1.201'', ''198.51.100.2'', ''443'',
      ''49153'', ''6'', ''25'', ''20000'', ''1620140761'', ''1620140821'', ''ACCEPT'', ''OK'']"
  unfolding line_49153_def by code_simp

lemma fields_line_49154:
  "split (strip line_49154) =
     [''2'', ''123456789012'', ''eni-4d3c2b1a'', ''192.168.1.100'', ''203.0.113.101'', ''23'',
      ''49154'', ''6'', ''15'', ''12000'', ''1620140761'', ''1620140821'', ''REJECT'', ''OK'']"
  unfolding line_49154_def by code_simp

lemma fields_line_49155:
  "split (strip line_49155) =
     [''2'', ''123456789012'', ''eni-5e6f7g8h'', ''192.168.1.101'', ''198.51.100.3'', ''25'',
      ''49155'', ''6'', ''10'', ''8000'', ''1620140761'', ''1620140821'', ''ACCEPT'', ''OK'']"
  unfolding line_49155_def by code_simp

lemma fields_line_udp:
  "split (strip line_udp) =
     [''2'', ''123456789012'', ''eni-0a1b2c3d'', ''10.0.1.201'', ''198.51.100.2'', ''443'',
      ''49153'', ''17'', ''25'', ''20000'', ''1620140761'', ''1620140821'', ''ACCEPT'', ''OK'']"
  unfolding line_udp_def by code_simp

lemma fields_line_neg_port:
  "split (strip line_neg_port) =
     [''2'', ''123456789012'', ''eni-0a1b2c3d'', ''10.0.1.201'', ''198.51.100.2'', ''443'',
      ''-1'', ''6'', ''25'', ''20000'', ''1620140761'', ''1620140821'', ''ACCEPT'', ''OK'']"
  unfolding line_neg_port_def by code_simp

lemma fields_line_bad_proto:
  "split (strip line_bad_proto) =
     [''2'', ''123456789012'', ''eni-0a1b2c3d'', ''10.0.1.201'', ''198.51.100.2'', ''443'',
      ''49153'', ''tcp'', ''25'', ''20000'', ''1620140761'', ''1620140821'', ''ACCEPT'', ''OK'']"
  unfolding line_bad_proto_def by code_simp

lemma fields_line_bad_port:
  "split (strip line_bad_port) =
     [''2'', ''123456789012'', ''eni-0a1b2c3d'', ''10.0.1.201'', ''198.51.100.2'', ''443'',
      ''http'', ''6'', ''25'', ''20000'', ''1620140761'', ''1620140821'', ''ACCEPT'', ''OK'']"
  unfolding line_bad_port_def by code_simp

lemma fields_empty: "split (strip []) = []"
  by code_simp

lemmas fields_examples =
  fields_line_49153 fields_line_49154 fields_line_49155 fields_line_udp fields_line_neg_port
  fields_line_bad_proto fields_line_bad_port fields_empty

lemma py_int_examples:
  "py_int ''6'' = Some 6" "py_int ''17'' = Some 17" "py_int ''49153'' = Some 49153"
  "py_int ''49154'' = Some 49154" "py_int ''49155'' = Some 49155" "py_int ''-1'' = Some (- 1)"
  "py_int ''tcp'' = None" "py_int ''http'' = None" "py_int ''146-252'' = None"
  "py_int ''255'' = Some 255"
  by (simp_all add: py_int_def int_strip_def is_int_space_def parse_unsigned_def is_digit_def
      digit_val_def)

lemma lower_tcp: "lower ''tcp'' = ''tcp''"
  by code_simp

lemma lower_TCP: "lower ''TCP'' = ''tcp''"
  by code_simp

lemma lower_Reserved: "lower ''Reserved'' = ''reserved''"
  by code_simp

lemmas lower_examples = lower_tcp lower_TCP lower_Reserved

lemma test_parser_fields:
  "table test_parser = [6 \<mapsto> ''tcp'']"
  "tag_map test_parser = [(49153, ''tcp'') \<mapsto> ''sv_P1'', (49154, ''tcp'') \<mapsto> ''sv_P1'']"
  "tag_count test_parser = []" "combinations_count test_parser = []" "errors test_parser = 0"
  "flowlogs test_parser = Some ''dummy''" "outputfile test_parser = Some ''dummy''"
  by (simp_all add: test_parser_def init_parser_def)

lemma chunks_short: "0 < length xs \<Longrightarrow> length xs \<le> n \<Longrightarrow> chunks n xs = [xs]"
  by (simp add: chunks.simps [of n xs] chunks.simps [of n "[]"] Let_def)

text \<open>What one iteration does to the lines of the examples.\<close>

lemma analyze_line_counted:
  assumes "V2_FIELDS_COUNT \<le> length (split (strip line))"
    and "py_int (split (strip line) ! V2_PROTO_NUM_IDX) = Some num"
    and "table p num = Some name"
    and "py_int (split (strip line) ! V2_DST_PORT_IDX) = Some port"
  shows "analyze_line p line =
           Inr (p\<lparr>tag_count :=
                     incr (case tag_map p (port, lower name) of Some t \<Rightarrow> t | None \<Rightarrow> Untagged)
                       (tag_count p),
                   combinations_count := incr (port, lower name) (combinations_count p)\<rparr>)"
  using assms
  by (simp add: analyze_line_unfold Let_def V2_FIELDS_COUNT_def V2_PROTO_NUM_IDX_def
      V2_DST_PORT_IDX_def)

lemma analyze_line_rejected:
  assumes "length (split (strip line)) < V2_FIELDS_COUNT
           \<or> py_int (split (strip line) ! V2_PROTO_NUM_IDX) = None
           \<or> (\<exists>num name. py_int (split (strip line) ! V2_PROTO_NUM_IDX) = Some num
                 \<and> table p num = Some name
                 \<and> py_int (split (strip line) ! V2_DST_PORT_IDX) = None)"
  shows "analyze_line p line = Inr (p\<lparr>errors := errors p + 1\<rparr>)"
  using assms
  by (auto simp: analyze_line_unfold Let_def V2_FIELDS_COUNT_def V2_PROTO_NUM_IDX_def
      V2_DST_PORT_IDX_def)

lemma analyze_line_unknown:
  assumes "V2_FIELDS_COUNT \<le> length (split (strip line))"
    and "py_int (split (strip line) ! V2_PROTO_NUM_IDX) = Some num"
    and "table p num = None"
  shows "analyze_line p line = Inl KeyError"
  using assms
  by (simp add: analyze_line_unfold Let_def V2_FIELDS_COUNT_def V2_PROTO_NUM_IDX_def)

subsection \<open>A batch without unknown protocol numbers\<close>

lemma distinct_incr: "distinct (map fst d) \<Longrightarrow> distinct (map fst (incr k d))"
proof (induction k d rule: incr.induct)
  case (1 k)
  show ?case by simp
next
  case (2 k k' n kvs)
  show ?case
  proof (cases "k = k'")
    case True
    with "2.prems" show ?thesis by simp
  next
    case False
    with "2.prems" "2.IH" have d: "distinct (map fst (incr k kvs))" by simp
    from "2.prems" have "k' \<notin> set (map fst kvs)" by simp
    with False have "k' \<notin> set (map fst (incr k kvs))" by (simp only: keys_incr) simp
    with d False show ?thesis by simp
  qed
qed

lemma count_of_fold_incr: "count_of (fold incr ks d) k = count_of d k + count_list ks k"
  by (induction ks arbitrary: d) (auto simp: count_of_incr)

lemma keys_fold_incr: "set (map fst (fold incr ks d)) = set (map fst d) \<union> set ks"
proof (induction ks arbitrary: d)
  case Nil
  show ?case by simp
next
  case (Cons k ks)
  have "set (map fst (fold incr (k # ks) d)) = set (map fst (incr k d)) \<union> set ks"
    using Cons.IH [of "incr k d"] by simp
  also have "\<dots> = insert k (set (map fst d)) \<union> set ks" by (simp only: keys_incr)
  finally show ?case by auto
qed

lemma distinct_fold_incr: "distinct (map fst d) \<Longrightarrow> distinct (map fst (fold incr ks d))"
  by (induction ks arbitrary: d) (simp_all add: distinct_incr)

lemma count_of_absent: "k \<notin> set (map fst d) \<Longrightarrow> count_of d k = 0"
  by (induction d) auto

lemma entries_of_counts:
  "distinct (map fst d) \<Longrightarrow> set d = (\<lambda>k. (k, count_of d k)) ` set (map fst d)"
proof (induction d)
  case Nil
  show ?case by simp
next
  case (Cons e d)
  obtain k n where e: "e = (k, n)" by (cases e)
  from Cons.prems e have nk: "k \<notin> set (map fst d)" and dd: "distinct (map fst d)" by simp_all
  from Cons.IH [OF dd] have ih: "set d = (\<lambda>k. (k, count_of d k)) ` set (map fst d)" .
  have "(\<lambda>k'. (k', count_of ((k, n) # d) k')) ` set (map fst d)
        = (\<lambda>k'. (k', count_of d k')) ` set (map fst d)"
    using nk by (intro image_cong) auto
  with ih e show ?case by simp
qed

lemma length_counts: "distinct (map fst d) \<Longrightarrow> length d = card (set (map fst d))"
  using distinct_card [of "map fst d"] by simp

lemma analyze_line_by_key:
  assumes "protocol_known (table p) line"
  shows "analyze_line p line =
           Inr (case record_key (table p) line of
                  None \<Rightarrow> p\<lparr>errors := errors p + 1\<rparr>
                | Some key \<Rightarrow>
                    p\<lparr>tag_count := incr (resolved_tag (tag_map p) key) (tag_count p),
                      combinations_count := incr key (combinations_count p)\<rparr>)"
  using assms
  by (auto simp: analyze_line_unfold protocol_known_def record_key_def resolved_tag_def Let_def
      V2_FIELDS_COUNT_def V2_DST_PORT_IDX_def V2_PROTO_NUM_IDX_def
      split: if_splits option.splits)

lemma analyze_lines_by_key:
  assumes "list_all (protocol_known (table p)) lines"
  shows "analyze_lines p lines =
           (p\<lparr>errors := errors p + length (filter (\<lambda>l. record_key (table p) l = None) lines),
              tag_count :=
                fold incr (map (resolved_tag (tag_map p)) (counted_keys (table p) lines))
                  (tag_count p),
              combinations_count :=
                fold incr (counted_keys (table p) lines) (combinations_count p)\<rparr>, None)"
  using assms
proof (induction lines arbitrary: p)
  case Nil
  show ?case by (simp add: counted_keys_def map_filter_simps)
next
  case (Cons line rest)
  from Cons.prems have k: "protocol_known (table p) line" by simp
  show ?case
  proof (cases "record_key (table p) line")
    case None
    with analyze_line_by_key [OF k]
    have s: "analyze_line p line = Inr (p\<lparr>errors := errors p + 1\<rparr>)" by simp
    from Cons.prems have "list_all (protocol_known (table (p\<lparr>errors := errors p + 1\<rparr>))) rest"
      by simp
    from Cons.IH [OF this] s None show ?thesis
      by (simp add: counted_keys_def map_filter_simps)
  next
    case (Some key)
    define p' where
      "p' = p\<lparr>tag_count := incr (resolved_tag (tag_map p) key) (tag_count p),
               combinations_count := incr key (combinations_count p)\<rparr>"
    from analyze_line_by_key [OF k] Some have s: "analyze_line p line = Inr p'"
      by (simp add: p'_def)
    from Cons.prems have "list_all (protocol_known (table p')) rest"
      by (simp add: p'_def)
    from Cons.IH [OF this] s Some show ?thesis
      by (simp add: counted_keys_def map_filter_simps p'_def)
  qed
qed

lemma count_list_counted_keys:
  "count_list (counted_keys tbl lines) k = length (filter (\<lambda>l. record_key tbl l = Some k) lines)"
  by (induction lines) (auto simp: counted_keys_def map_filter_simps split: option.splits)

lemma count_list_resolved:
  "count_list (map (resolved_tag m) (counted_keys tbl lines)) t
   = length (filter (\<lambda>l. map_option (resolved_tag m) (record_key tbl l) = Some t) lines)"
  by (induction lines) (auto simp: counted_keys_def map_filter_simps split: option.splits)

lemma set_counted_keys:
  "set (counted_keys tbl lines) = {k. \<exists>l \<in> set lines. record_key tbl l = Some k}"
  by (induction lines) (auto simp: counted_keys_def map_filter_simps split: option.splits)

lemma record_key_valid:
  "valid_record line port num \<Longrightarrow> tbl num = Some name
   \<Longrightarrow> record_key tbl line = Some (port, lower name)"
  by (auto simp: valid_record_def record_key_def Let_def)

lemma record_key_blank: "split (strip line) = [] \<Longrightarrow> record_key tbl line = None"
  by (simp add: record_key_def V2_FIELDS_COUNT_def)

lemma protocol_known_valid:
  "valid_record line port num \<Longrightarrow> tbl num = Some name \<Longrightarrow> protocol_known tbl line"
  by (auto simp: valid_record_def protocol_known_def Let_def)

lemma protocol_known_blank: "split (strip line) = [] \<Longrightarrow> protocol_known tbl line"
  by (simp add: protocol_known_def V2_FIELDS_COUNT_def)

subsection \<open>An empty tag mapping\<close>

lemma untagged_line:
  assumes "tag_map p = Map.empty" and "valid_record line port num" and "table p num = Some name"
  shows "analyze_line p line =
           Inr (p\<lparr>tag_count := incr Untagged (tag_count p),
                   combinations_count := incr (port, lower name) (combinations_count p)\<rparr>)"
proof -
  from assms(2) have "V2_FIELDS_COUNT \<le> length (split (strip line))"
    and "py_int (split (strip line) ! V2_PROTO_NUM_IDX) = Some num"
    and "py_int (split (strip line) ! V2_DST_PORT_IDX) = Some port"
    by (simp_all add: valid_record_def Let_def)
  from analyze_line_counted [OF this(1) this(2) assms(3) this(3)] assms(1)
  show ?thesis by simp
qed

lemma count_list_untagged:
  "count_list (map (resolved_tag Map.empty) ks) t = (if t = Untagged then length ks else 0)"
  by (induction ks) (auto simp: resolved_tag_def)

lemma untagged_batch_known:
  assumes "tag_map p = Map.empty" and "list_all (protocol_known (table p)) lines"
  shows "count_of (tag_count (fst (analyze_flow_logs_batch p lines))) t
         = count_of (tag_count p) t
           + (if t = Untagged then length (counted_keys (table p) lines) else 0)"
  using assms(1) count_list_untagged [of "counted_keys (table p) lines" t]
  by (simp add: analyze_flow_logs_batch_def analyze_lines_by_key [OF assms(2)]
      count_of_fold_incr)

lemma untagged_line_any:
  assumes "tag_map p = Map.empty" and "analyze_line p line = Inr p'"
  shows "tag_map p' = Map.empty
         \<and> count_of (tag_count p') Untagged + sum_counts (combinations_count p)
           = count_of (tag_count p) Untagged + sum_counts (combinations_count p')
         \<and> (\<forall>t. t \<noteq> Untagged \<longrightarrow> count_of (tag_count p') t = count_of (tag_count p) t)"
  using assms
  by (auto simp: analyze_line_unfold Let_def count_of_incr sum_counts_incr
      split: if_splits option.splits)

lemma untagged_batch_any:
  assumes "tag_map p = Map.empty"
  shows "count_of (tag_count (fst (analyze_lines p lines))) Untagged
           + sum_counts (combinations_count p)
         = count_of (tag_count p) Untagged
           + sum_counts (combinations_count (fst (analyze_lines p lines)))
         \<and> (\<forall>t. t \<noteq> Untagged \<longrightarrow>
               count_of (tag_count (fst (analyze_lines p lines))) t = count_of (tag_count p) t)"
  using assms
proof (induction lines arbitrary: p)
  case Nil
  show ?case by simp
next
  case (Cons line rest)
  show ?case
  proof (cases "analyze_line p line")
    case (Inl e)
    then show ?thesis by simp
  next
    case (Inr p')
    note s = untagged_line_any [OF Cons.prems Inr]
    from s have "tag_map p' = Map.empty" by simp
    from Cons.IH [OF this] s Inr show ?thesis by simp
  qed
qed

subsection \<open>The two totals\<close>

text \<open>
  Claim C9. After any batch, and after any run, the sum of the tag counts
  equals the sum of the combination counts, provided it did before (both
  dictionaries start empty): every iteration of the loop either leaves both
  dictionaries alone or increments one entry of each. This holds as well for a
  batch that an exception ends early.
\<close>

theorem tag_total_eq_combination_total:
  assumes "sum_counts (tag_count p) = sum_counts (combinations_count p)"
  shows "sum_counts (tag_count (fst (analyze_flow_logs_batch p lines)))
           = sum_counts (combinations_count (fst (analyze_flow_logs_batch p lines)))
         \<and> sum_counts (tag_count (fst (analyze_flow_logs w p)))
           = sum_counts (combinations_count (fst (analyze_flow_logs w p)))
         \<and> (\<forall>line p'. analyze_line p line = Inr p' \<longrightarrow>
               (tag_count p' = tag_count p \<and> combinations_count p' = combinations_count p)
               \<or> (\<exists>tag key. tag_count p' = incr tag (tag_count p)
                     \<and> combinations_count p' = incr key (combinations_count p)))"
proof (intro conjI allI impI)
  from analyze_lines_sums [of p lines] assms
  show "sum_counts (tag_count (fst (analyze_flow_logs_batch p lines)))
        = sum_counts (combinations_count (fst (analyze_flow_logs_batch p lines)))"
    by (simp add: analyze_flow_logs_batch_def)
next
  from analyze_flow_logs_sums [of w p] assms
  show "sum_counts (tag_count (fst (analyze_flow_logs w p)))
        = sum_counts (combinations_count (fst (analyze_flow_logs w p)))"
    by simp
next
  fix line p'
  assume "analyze_line p line = Inr p'"
  then show "(tag_count p' = tag_count p \<and> combinations_count p' = combinations_count p)
             \<or> (\<exists>tag key. tag_count p' = incr tag (tag_count p)
                   \<and> combinations_count p' = incr key (combinations_count p))"
    by (fastforce simp: analyze_line_unfold Let_def split: if_splits option.splits)
qed

theorem tag_total_eq_combination_total_witness:
  "sum_counts (tag_count test_parser) = sum_counts (combinations_count test_parser)
   \<and> sum_counts (tag_count (fst (analyze_flow_logs_batch test_parser test_lines)))
     = sum_counts (combinations_count (fst (analyze_flow_logs_batch test_parser test_lines)))
   \<and> analyze_line test_parser line_49153
     = Inr (test_parser\<lparr>tag_count := incr ''sv_P1'' (tag_count test_parser),
              combinations_count := incr (49153, ''tcp'') (combinations_count test_parser)\<rparr>)"
proof -
  have h: "sum_counts (tag_count test_parser) = sum_counts (combinations_count test_parser)"
    by (simp add: test_parser_fields sum_counts_def)
  have l: "analyze_line test_parser line_49153
     = Inr (test_parser\<lparr>tag_count := incr ''sv_P1'' (tag_count test_parser),
              combinations_count := incr (49153, ''tcp'') (combinations_count test_parser)\<rparr>)"
    using analyze_line_counted [of line_49153 6 test_parser "''tcp''" 49153]
    by (simp add: fields_examples py_int_examples lower_examples test_parser_fields
        V2_FIELDS_COUNT_def V2_PROTO_NUM_IDX_def V2_DST_PORT_IDX_def)
  from tag_total_eq_combination_total [OF h, of test_lines "world_with ''dummy'' test_lines"] h l
  show ?thesis by blast
qed

subsection \<open>The total of the combination counts\<close>

text \<open>
  Claim C1 as stated fails: a record of 14 fields with numeric port and
  protocol passes validation, but its protocol number 17 is not in the table,
  so the record is not counted.
\<close>

theorem combination_total_counterexample:
  "text_lines (world_with ''dummy'' [line_udp]) ''dummy'' = Some [line_udp]
   \<and> length (filter passes_validation [line_udp]) = 1
   \<and> sum_counts (combinations_count
         (fst (analyze_flow_logs (world_with ''dummy'' [line_udp]) test_parser))) = 0"
proof -
  have a: "analyze_line test_parser line_udp = Inl KeyError"
    using analyze_line_unknown [of line_udp 17 test_parser]
    by (simp add: fields_examples py_int_examples test_parser_fields V2_FIELDS_COUNT_def
        V2_PROTO_NUM_IDX_def)
  have v: "passes_validation line_udp"
    by (simp add: passes_validation_def fields_examples py_int_examples V2_FIELDS_COUNT_def
        V2_PROTO_NUM_IDX_def V2_DST_PORT_IDX_def)
  have c: "chunks CHUNK_SIZE [line_udp] = [[line_udp]]"
    by (simp add: chunks_short CHUNK_SIZE_def)
  show ?thesis
    using a v c
    by (simp add: analyze_flow_logs_def world_with_def given_def test_parser_fields
        analyze_flow_logs_batch_def Let_def sum_counts_def)
qed

text \<open>
  Claim C1, amended. In a run where the table resolves every protocol number
  that is looked up, the sum of the combination counts grows by the number of
  lines that pass validation: at least 14 fields, and port and protocol fields
  that \<^verbatim>\<open>int\<close> accepts.
\<close>

theorem combination_total:
  assumes "given (flowlogs p) = Some fname"
    and "text_lines w fname = Some all_lines"
    and "list_all (protocol_known (table p)) all_lines"
  shows "sum_counts (combinations_count (fst (analyze_flow_logs w p)))
         = sum_counts (combinations_count p) + length (filter passes_validation all_lines)"
proof -
  from assms(3) have "list_all (protocol_known (table p)) (concat (chunks CHUNK_SIZE all_lines))"
    by (simp add: concat_chunks CHUNK_SIZE_def)
  from submit_all_known [OF this] assms(1,2) show ?thesis
    by (simp add: analyze_flow_logs_def Let_def concat_chunks CHUNK_SIZE_def)
qed

theorem combination_total_witness:
  "given (flowlogs test_parser) = Some ''dummy''
   \<and> text_lines (world_with ''dummy'' test_lines) ''dummy'' = Some test_lines
   \<and> list_all (protocol_known (table test_parser)) test_lines
   \<and> sum_counts (combinations_count
         (fst (analyze_flow_logs (world_with ''dummy'' test_lines) test_parser))) = 3"
proof -
  have g: "given (flowlogs test_parser) = Some ''dummy''"
    by (simp add: given_def test_parser_fields)
  have t: "text_lines (world_with ''dummy'' test_lines) ''dummy'' = Some test_lines"
    by (simp add: world_with_def)
  have k: "list_all (protocol_known (table test_parser)) test_lines"
    by (simp add: test_lines_def protocol_known_def fields_examples py_int_examples
        test_parser_fields V2_FIELDS_COUNT_def V2_PROTO_NUM_IDX_def)
  have v: "filter passes_validation test_lines = [line_49153, line_49154, line_49155]"
    by (simp add: test_lines_def passes_validation_def fields_examples py_int_examples
        V2_FIELDS_COUNT_def V2_PROTO_NUM_IDX_def V2_DST_PORT_IDX_def)
  from combination_total [OF g t k] v g t k show ?thesis
    by (simp add: test_parser_fields sum_counts_def)
qed

subsection \<open>Record-level violations\<close>

text \<open>
  Claim C2. A record whose protocol number is absent from the table should add
  one to the error counter and be skipped. The code does otherwise: the
  \<^verbatim>\<open>KeyError\<close> of the table lookup is not among the exceptions the handler
  catches. In the batch below the first record has protocol 17, which the table
  does not hold, and the second is the well-formed record of the unit test: the
  exception leaves the batch, the error counter is not incremented and the
  second record is never counted. In a run the executor drops the exception
  and the rest of the batch with it.
\<close>

theorem unknown_protocol_aborts_batch:
  "analyze_flow_logs_batch test_parser [line_udp, line_49153] = (test_parser, Some KeyError)
   \<and> fst (analyze_flow_logs (world_with ''dummy'' [line_udp, line_49153]) test_parser)
     = test_parser"
proof -
  have a: "analyze_line test_parser line_udp = Inl KeyError"
    using analyze_line_unknown [of line_udp 17 test_parser]
    by (simp add: fields_examples py_int_examples test_parser_fields V2_FIELDS_COUNT_def
        V2_PROTO_NUM_IDX_def)
  have c: "chunks CHUNK_SIZE [line_udp, line_49153] = [[line_udp, line_49153]]"
    by (simp add: chunks_short CHUNK_SIZE_def)
  show ?thesis
    using a c
    by (simp add: analyze_flow_logs_def world_with_def given_def test_parser_fields
        analyze_flow_logs_batch_def Let_def)
qed

subsection \<open>Resolving the tag\<close>

text \<open>
  Claim C3. Take a record that is counted: at least 14 fields, a protocol field
  that the table resolves to a name, and a numeric port field; let \<open>pname\<close> be
  the name in lower case. If the tag mapping holds the pair \<open>(port, pname)\<close>,
  the count of the configured tag goes up by one; if it does not, the count of
  \<open>Untagged\<close> goes up by one; no other tag count changes. Only the entry at
  exactly this pair is consulted.
\<close>

theorem tag_resolution:
  assumes "V2_FIELDS_COUNT \<le> length (split (strip line))"
    and "py_int (split (strip line) ! V2_PROTO_NUM_IDX) = Some num"
    and "table p num = Some name"
    and "lower name = pname"
    and "py_int (split (strip line) ! V2_DST_PORT_IDX) = Some port"
  shows "\<exists>p'. analyze_line p line = Inr p'
           \<and> (case tag_map p (port, pname) of
                 Some tag \<Rightarrow>
                   tag_count p' = incr tag (tag_count p)
                   \<and> (\<forall>t. count_of (tag_count p') t
                          = (if t = tag then count_of (tag_count p) t + 1
                             else count_of (tag_count p) t))
               | None \<Rightarrow>
                   tag_count p' = incr Untagged (tag_count p)
                   \<and> (\<forall>t. count_of (tag_count p') t
                          = (if t = Untagged then count_of (tag_count p) t + 1
                             else count_of (tag_count p) t)))"
  using analyze_line_counted [OF assms(1,2,3,5)] assms(4)
  by (auto simp: count_of_incr split: option.splits)

theorem tag_resolution_witness:
  "V2_FIELDS_COUNT \<le> length (split (strip line_49153))
   \<and> py_int (split (strip line_49153) ! V2_PROTO_NUM_IDX) = Some 6
   \<and> table test_parser 6 = Some ''tcp''
   \<and> lower ''tcp'' = ''tcp''
   \<and> py_int (split (strip line_49153) ! V2_DST_PORT_IDX) = Some 49153
   \<and> tag_map test_parser (49153, ''tcp'') = Some ''sv_P1''
   \<and> (\<exists>p'. analyze_line test_parser line_49153 = Inr p'
          \<and> tag_count p' = incr ''sv_P1'' (tag_count test_parser))"
proof -
  have h1: "V2_FIELDS_COUNT \<le> length (split (strip line_49153))"
    by (simp add: fields_examples V2_FIELDS_COUNT_def)
  have h2: "py_int (split (strip line_49153) ! V2_PROTO_NUM_IDX) = Some 6"
    by (simp add: fields_examples py_int_examples V2_PROTO_NUM_IDX_def)
  have h3: "table test_parser 6 = Some ''tcp''"
    by (simp add: test_parser_fields)
  have h4: "lower ''tcp'' = ''tcp''"
    by (rule lower_tcp)
  have h5: "py_int (split (strip line_49153) ! V2_DST_PORT_IDX) = Some 49153"
    by (simp add: fields_examples py_int_examples V2_DST_PORT_IDX_def)
  have m: "tag_map test_parser (49153, ''tcp'') = Some ''sv_P1''"
    by (simp add: test_parser_fields)
  from tag_resolution [OF h1 h2 h3 h4 h5] m
  have "\<exists>p'. analyze_line test_parser line_49153 = Inr p'
          \<and> tag_count p' = incr ''sv_P1'' (tag_count test_parser)"
    by auto
  with h1 h2 h3 h4 h5 m show ?thesis by blast
qed

subsection \<open>Rows of the protocol file that are no numbers\<close>

text \<open>
  Claim C4. A row whose first column is no integer should be skipped on its
  own. The code does otherwise: the \<^verbatim>\<open>try\<close> statement encloses the loop, so the
  first such row ends the loading, and the rows after it are lost. Of the rows
  below, 6 is loaded and 255, which follows the unassigned range, is not.
\<close>

theorem proto_rows_stop_at_first_bad_row:
  "ProtoMappings_process (csv_world ''protocols.csv'' iana_rows) ''protocols.csv''
     = Inr [(6, ''tcp'')]
   \<and> (\<exists>p'. read_proto_mappings (csv_world ''protocols.csv'' iana_rows)
               (init_parser 2 None None None (Some ''protocols.csv'')) = Inr p'
          \<and> table p' 6 = Some ''tcp'' \<and> table p' 255 = None)"
proof -
  have r: "proto_rows iana_rows [] = ([(6, ''tcp'')], Some ValueError)"
    by (simp add: iana_rows_def item_def IPMF_PORT_IDX_def IPMF_PROTO_IDX_def py_int_examples
        lower_examples)
  have q: "ProtoMappings_process (csv_world ''protocols.csv'' iana_rows) ''protocols.csv''
     = Inr [(6, ''tcp'')]"
    by (simp add: ProtoMappings_process_def read_csv_file_def csv_world_def r)
  show ?thesis
    by (simp add: q read_proto_mappings_def init_parser_def given_def)
qed

subsection \<open>The mixed batch of the unit test\<close>

text \<open>
  Claim C5. The tag mapping sends (49153, tcp) and (49154, tcp) to \<open>sv_P1\<close>,
  the table sends 6 to tcp, and both result dictionaries are empty. The batch
  consists, in any order, of a valid record with port 49153 and protocol 6, a
  valid record with port 49154 and protocol 6, a valid record whose protocol
  number the table resolves and whose (port, protocol) pair the tag mapping
  does not hold, and an empty line (or one of white space only). Analysing the
  batch ends without an exception and adds exactly one to the error counter;
  afterwards the tag counts have exactly two entries, \<open>sv_P1\<close> = 2 and
  \<open>Untagged\<close> = 1, and the combination counts have exactly three entries, the
  three pairs with count 1 each.
\<close>

theorem mixed_batch:
  assumes "tag_map p (49153, ''tcp'') = Some ''sv_P1''"
    and "tag_map p (49154, ''tcp'') = Some ''sv_P1''"
    and "table p 6 = Some ''tcp''"
    and "tag_count p = []"
    and "combinations_count p = []"
    and "valid_record l1 49153 6"
    and "valid_record l2 49154 6"
    and "valid_record l3 port num"
    and "table p num = Some name"
    and "tag_map p (port, lower name) = None"
    and "split (strip blank) = []"
    and "mset batch = mset [l1, l2, l3, blank]"
  shows "snd (analyze_flow_logs_batch p batch) = None
         \<and> errors (fst (analyze_flow_logs_batch p batch)) = errors p + 1
         \<and> set (tag_count (fst (analyze_flow_logs_batch p batch)))
           = {(''sv_P1'', 2), (''Untagged'', 1)}
         \<and> length (tag_count (fst (analyze_flow_logs_batch p batch))) = 2
         \<and> set (combinations_count (fst (analyze_flow_logs_batch p batch)))
           = {((49153, ''tcp''), 1), ((49154, ''tcp''), 1), ((port, lower name), 1)}
         \<and> length (combinations_count (fst (analyze_flow_logs_batch p batch))) = 3"
proof -
  define pname where "pname = lower name"
  define ks where "ks = counted_keys (table p) batch"
  define ts where "ts = map (resolved_tag (tag_map p)) ks"
  define p' where "p' = fst (analyze_flow_logs_batch p batch)"
  have r1: "record_key (table p) l1 = Some (49153, ''tcp'')"
    using record_key_valid [where tbl = "table p", OF assms(6) assms(3)] by (simp add: lower_tcp)
  have r2: "record_key (table p) l2 = Some (49154, ''tcp'')"
    using record_key_valid [where tbl = "table p", OF assms(7) assms(3)] by (simp add: lower_tcp)
  have r3: "record_key (table p) l3 = Some (port, pname)"
    using record_key_valid [where tbl = "table p", OF assms(8) assms(9)] by (simp add: pname_def)
  have r4: "record_key (table p) blank = None"
    using assms(11) by (rule record_key_blank)
  have t1: "resolved_tag (tag_map p) (49153, ''tcp'') = ''sv_P1''"
    and t2: "resolved_tag (tag_map p) (49154, ''tcp'') = ''sv_P1''"
    and t3: "resolved_tag (tag_map p) (port, pname) = ''Untagged''"
    using assms(1,2,10) by (simp_all add: resolved_tag_def pname_def Untagged_def)
  have n1: "(port, pname) \<noteq> (49153, ''tcp'')" and n2: "(port, pname) \<noteq> (49154, ''tcp'')"
    using assms(1,2,10) by (auto simp: pname_def)
  have perm: "length (filter P batch) = length (filter P [l1, l2, l3, blank])" for P
    using assms(12) by (metis mset_filter size_mset)
  have sb: "set batch = {l1, l2, l3, blank}"
    using mset_eq_setD [OF assms(12)] by simp
  have known: "list_all (protocol_known (table p)) batch"
    using protocol_known_valid [where tbl = "table p", OF assms(6) assms(3)]
      protocol_known_valid [where tbl = "table p", OF assms(7) assms(3)]
      protocol_known_valid [where tbl = "table p", OF assms(8) assms(9)]
      protocol_known_blank [OF assms(11)]
    by (simp add: list_all_iff sb)
  from analyze_lines_by_key [OF known]
  have res: "analyze_flow_logs_batch p batch =
      (p\<lparr>errors := errors p + length (filter (\<lambda>l. record_key (table p) l = None) batch),
         tag_count := fold incr ts [],
         combinations_count := fold incr ks []\<rparr>, None)"
    by (simp add: analyze_flow_logs_batch_def ts_def ks_def assms(4,5))
  have e: "length (filter (\<lambda>l. record_key (table p) l = None) batch) = 1"
    by (simp add: perm r1 r2 r3 r4)
  have sk: "set ks = {(49153, ''tcp''), (49154, ''tcp''), (port, pname)}"
    using r1 r2 r3 r4 by (auto simp: ks_def set_counted_keys sb)
  have st: "set ts = {''sv_P1'', ''Untagged''}"
    by (simp add: ts_def sk t1 t2 t3)
  have ck0: "count_list ks k
             = length (filter (\<lambda>l. record_key (table p) l = Some k) [l1, l2, l3, blank])" for k
    by (simp only: ks_def count_list_counted_keys perm)
  have ck: "count_list ks k = (if k \<in> set ks then 1 else 0)" for k
    using n1 n2 by (auto simp: ck0 sk r1 r2 r3 r4)
  have ct0: "count_list ts t
             = length (filter (\<lambda>l. map_option (resolved_tag (tag_map p))
                                      (record_key (table p) l) = Some t) [l1, l2, l3, blank])" for t
    by (simp only: ts_def ks_def count_list_resolved perm)
  have ct1: "count_list ts ''sv_P1'' = 2" and ct2: "count_list ts ''Untagged'' = 1"
    using t1 t2 t3 by (auto simp: ct0 r1 r2 r3 r4)
  have dt: "distinct (map fst (fold incr ts ([] :: string counts)))"
    by (rule distinct_fold_incr) simp
  have dk: "distinct (map fst (fold incr ks ([] :: (int \<times> string) counts)))"
    by (rule distinct_fold_incr) simp
  have kt: "set (map fst (fold incr ts ([] :: string counts))) = {''sv_P1'', ''Untagged''}"
    by (simp only: keys_fold_incr st) simp
  have kk: "set (map fst (fold incr ks ([] :: (int \<times> string) counts)))
            = {(49153, ''tcp''), (49154, ''tcp''), (port, pname)}"
    by (simp only: keys_fold_incr sk) simp
  have set_t: "set (fold incr ts ([] :: string counts)) = {(''sv_P1'', 2), (''Untagged'', 1)}"
    by (simp only: entries_of_counts [OF dt] kt) (simp add: count_of_fold_incr ct1 ct2)
  have set_k: "set (fold incr ks ([] :: (int \<times> string) counts))
               = {((49153, ''tcp''), 1), ((49154, ''tcp''), 1), ((port, pname), 1)}"
    by (simp only: entries_of_counts [OF dk] kk) (simp add: count_of_fold_incr ck sk)
  have len_t: "length (fold incr ts ([] :: string counts)) = 2"
    by (simp only: length_counts [OF dt] kt) simp
  have len_k: "length (fold incr ks ([] :: (int \<times> string) counts)) = 3"
    using n1 n2 by (simp only: length_counts [OF dk] kk) (auto simp: card_insert_if)
  show ?thesis
    using e set_t set_k len_t len_k by (simp add: res pname_def)
qed

theorem mixed_batch_witness:
  "tag_map test_parser (49153, ''tcp'') = Some ''sv_P1''
   \<and> tag_map test_parser (49154, ''tcp'') = Some ''sv_P1''
   \<and> table test_parser 6 = Some ''tcp''
   \<and> tag_count test_parser = [] \<and> combinations_count test_parser = []
   \<and> valid_record line_49153 49153 6 \<and> valid_record line_49154 49154 6
   \<and> valid_record line_49155 49155 6
   \<and> tag_map test_parser (49155, lower ''tcp'') = None
   \<and> split (strip []) = []
   \<and> mset [[], line_49155, line_49154, line_49153]
     = mset [line_49153, line_49154, line_49155, []]
   \<and> errors (fst (analyze_flow_logs_batch test_parser
        [[], line_49155, line_49154, line_49153])) = 1
   \<and> set (tag_count (fst (analyze_flow_logs_batch test_parser
        [[], line_49155, line_49154, line_49153])))
     = {(''sv_P1'', 2), (''Untagged'', 1)}
   \<and> length (tag_count (fst (analyze_flow_logs_batch test_parser
        [[], line_49155, line_49154, line_49153]))) = 2
   \<and> length (combinations_count (fst (analyze_flow_logs_batch test_parser
        [[], line_49155, line_49154, line_49153]))) = 3"
proof -
  have h1: "tag_map test_parser (49153, ''tcp'') = Some ''sv_P1''"
    and h2: "tag_map test_parser (49154, ''tcp'') = Some ''sv_P1''"
    and h3: "table test_parser 6 = Some ''tcp''"
    and h4: "tag_count test_parser = []"
    and h5: "combinations_count test_parser = []"
    and h10: "tag_map test_parser (49155, lower ''tcp'') = None"
    by (simp_all add: test_parser_fields lower_tcp)
  have h6: "valid_record line_49153 49153 6"
    and h7: "valid_record line_49154 49154 6"
    and h8: "valid_record line_49155 49155 6"
    by (simp_all add: valid_record_def fields_examples py_int_examples V2_FIELDS_COUNT_def
        V2_PROTO_NUM_IDX_def V2_DST_PORT_IDX_def)
  have h11: "split (strip []) = []"
    by (rule fields_empty)
  have h12: "mset [[], line_49155, line_49154, line_49153]
     = mset [line_49153, line_49154, line_49155, []]"
    by (simp add: add.commute add.left_commute)
  from mixed_batch [OF h1 h2 h3 h4 h5 h6 h7 h8 h3 h10 h11 h12]
    h1 h2 h3 h4 h5 h6 h7 h8 h10 h11 h12
  show ?thesis by (simp add: test_parser_fields)
qed

subsection \<open>Signed port and protocol fields\<close>

text \<open>
  Claim C6 as stated fails: a record whose destination-port field is \<open>-1\<close>
  is not a violation. \<^verbatim>\<open>int\<close> accepts the sign, the record is counted under
  port \<open>-1\<close>, and the error counter stays as it was.
\<close>

theorem negative_port_counterexample:
  "analyze_flow_logs_batch test_parser [line_neg_port]
     = (test_parser\<lparr>tag_count := [(''Untagged'', 1)],
                     combinations_count := [((- 1, ''tcp''), 1)]\<rparr>, None)"
proof -
  have "analyze_line test_parser line_neg_port
     = Inr (test_parser\<lparr>tag_count := [(''Untagged'', 1)],
                          combinations_count := [((- 1, ''tcp''), 1)]\<rparr>)"
    using analyze_line_counted [of line_neg_port 6 test_parser "''tcp''" "- 1"]
    by (simp add: fields_examples py_int_examples lower_examples test_parser_fields
        Untagged_def V2_FIELDS_COUNT_def V2_PROTO_NUM_IDX_def V2_DST_PORT_IDX_def)
  then show ?thesis
    by (simp add: analyze_flow_logs_batch_def)
qed

text \<open>
  Claim C6, amended. For a line of at least 14 fields, both fields must be
  integers as \<^verbatim>\<open>int\<close> reads them, sign included, for the line to be counted.
  A line whose protocol field is no integer, or whose protocol number the table
  resolves and whose port field is no integer, adds one to the error counter
  and changes nothing else. A line whose protocol number the table resolves
  and whose port field is an integer of either sign is counted under that
  port, and the error counter stays as it was.
\<close>

theorem integer_fields_required:
  assumes "V2_FIELDS_COUNT \<le> length (split (strip line))"
  shows "(py_int (split (strip line) ! V2_PROTO_NUM_IDX) = None
            \<longrightarrow> analyze_line p line = Inr (p\<lparr>errors := errors p + 1\<rparr>))
         \<and> (\<forall>num name.
               py_int (split (strip line) ! V2_PROTO_NUM_IDX) = Some num
               \<and> table p num = Some name
               \<and> py_int (split (strip line) ! V2_DST_PORT_IDX) = None
               \<longrightarrow> analyze_line p line = Inr (p\<lparr>errors := errors p + 1\<rparr>))
         \<and> (\<forall>num name port.
               py_int (split (strip line) ! V2_PROTO_NUM_IDX) = Some num
               \<and> table p num = Some name
               \<and> py_int (split (strip line) ! V2_DST_PORT_IDX) = Some port
               \<longrightarrow> analyze_line p line =
                     Inr (p\<lparr>tag_count :=
                               incr (case tag_map p (port, lower name) of
                                       Some t \<Rightarrow> t | None \<Rightarrow> Untagged) (tag_count p),
                             combinations_count :=
                               incr (port, lower name) (combinations_count p)\<rparr>))"
proof (intro conjI allI impI)
  assume "py_int (split (strip line) ! V2_PROTO_NUM_IDX) = None"
  then show "analyze_line p line = Inr (p\<lparr>errors := errors p + 1\<rparr>)"
    by (simp add: analyze_line_rejected)
next
  fix num name
  assume "py_int (split (strip line) ! V2_PROTO_NUM_IDX) = Some num
          \<and> table p num = Some name
          \<and> py_int (split (strip line) ! V2_DST_PORT_IDX) = None"
  then show "analyze_line p line = Inr (p\<lparr>errors := errors p + 1\<rparr>)"
    by (intro analyze_line_rejected) blast
next
  fix num name port
  assume "py_int (split (strip line) ! V2_PROTO_NUM_IDX) = Some num
          \<and> table p num = Some name
          \<and> py_int (split (strip line) ! V2_DST_PORT_IDX) = Some port"
  with assms show "analyze_line p line =
     Inr (p\<lparr>tag_count :=
               incr (case tag_map p (port, lower name) of
                       Some t \<Rightarrow> t | None \<Rightarrow> Untagged) (tag_count p),
             combinations_count := incr (port, lower name) (combinations_count p)\<rparr>)"
    by (simp add: analyze_line_counted)
qed

theorem integer_fields_required_witness:
  "V2_FIELDS_COUNT \<le> length (split (strip line_bad_proto))
   \<and> py_int (split (strip line_bad_proto) ! V2_PROTO_NUM_IDX) = None
   \<and> analyze_line test_parser line_bad_proto = Inr (test_parser\<lparr>errors := 1\<rparr>)
   \<and> V2_FIELDS_COUNT \<le> length (split (strip line_bad_port))
   \<and> py_int (split (strip line_bad_port) ! V2_PROTO_NUM_IDX) = Some 6
   \<and> table test_parser 6 = Some ''tcp''
   \<and> py_int (split (strip line_bad_port) ! V2_DST_PORT_IDX) = None
   \<and> analyze_line test_parser line_bad_port = Inr (test_parser\<lparr>errors := 1\<rparr>)
   \<and> V2_FIELDS_COUNT \<le> length (split (strip line_neg_port))
   \<and> py_int (split (strip line_neg_port) ! V2_PROTO_NUM_IDX) = Some 6
   \<and> py_int (split (strip line_neg_port) ! V2_DST_PORT_IDX) = Some (- 1)
   \<and> analyze_line test_parser line_neg_port
     = Inr (test_parser\<lparr>tag_count := [(''Untagged'', 1)],
                          combinations_count := [((- 1, ''tcp''), 1)]\<rparr>)"
proof -
  have a1: "V2_FIELDS_COUNT \<le> length (split (strip line_bad_proto))"
    and a2: "py_int (split (strip line_bad_proto) ! V2_PROTO_NUM_IDX) = None"
    and b1: "V2_FIELDS_COUNT \<le> length (split (strip line_bad_port))"
    and b2: "py_int (split (strip line_bad_port) ! V2_PROTO_NUM_IDX) = Some 6"
    and b3: "py_int (split (strip line_bad_port) ! V2_DST_PORT_IDX) = None"
    and c1: "V2_FIELDS_COUNT \<le> length (split (strip line_neg_port))"
    and c2: "py_int (split (strip line_neg_port) ! V2_PROTO_NUM_IDX) = Some 6"
    and c3: "py_int (split (strip line_neg_port) ! V2_DST_PORT_IDX) = Some (- 1)"
    by (simp_all add: fields_examples py_int_examples V2_FIELDS_COUNT_def V2_PROTO_NUM_IDX_def
        V2_DST_PORT_IDX_def)
  have t: "table test_parser 6 = Some ''tcp''"
    by (simp add: test_parser_fields)
  from integer_fields_required [OF a1, of test_parser] a2
  have r1: "analyze_line test_parser line_bad_proto = Inr (test_parser\<lparr>errors := 1\<rparr>)"
    by (simp add: test_parser_fields)
  from integer_fields_required [OF b1, of test_parser] b2 b3 t
  have r2: "analyze_line test_parser line_bad_port = Inr (test_parser\<lparr>errors := 1\<rparr>)"
    by (simp add: test_parser_fields)
  from integer_fields_required [OF c1, of test_parser] c2 c3 t
  have r3: "analyze_line test_parser line_neg_port
     = Inr (test_parser\<lparr>tag_count := [(''Untagged'', 1)],
                          combinations_count := [((- 1, ''tcp''), 1)]\<rparr>)"
    by (simp add: test_parser_fields lower_examples Untagged_def)
  from a1 a2 r1 b1 b2 t b3 r2 c1 c2 c3 r3 show ?thesis by blast
qed

subsection \<open>Absent paths\<close>

text \<open>
  Claim C7 as stated fails in two places. With no input path and an output
  path that can be written, \<^verbatim>\<open>analyze_flow_logs\<close> returns before it reaches the
  call of the report writer, and no report is written; called on its own, the
  writer would write the report. With no tag-mapping path, a record that is
  rejected (here one whose port field is no number) resolves to no tag at all:
  the tag counts stay empty.
\<close>

theorem no_input_counterexample:
  "given (flowlogs no_input_parser) = None
   \<and> given (outputfile no_input_parser) = Some ''output.txt''
   \<and> writable (world_with [] []) ''output.txt''
   \<and> analyze_flow_logs (world_with [] []) no_input_parser = (no_input_parser, Inr None)
   \<and> write_output_file (world_with [] []) no_input_parser
     = Inr (Some (''output.txt'', report_text no_input_parser))
   \<and> given (mapfile no_paths_parser) = None
   \<and> read_mappings_file (world_with [] []) no_paths_parser = Inr no_paths_parser
   \<and> analyze_flow_logs_batch no_paths_parser [line_bad_port]
     = (no_paths_parser\<lparr>errors := 1\<rparr>, None)
   \<and> tag_count (no_paths_parser\<lparr>errors := 1\<rparr>) = []"
proof -
  have a: "analyze_line no_paths_parser line_bad_port = Inr (no_paths_parser\<lparr>errors := 1\<rparr>)"
    using analyze_line_rejected [of line_bad_port no_paths_parser]
    by (simp add: fields_examples py_int_examples no_paths_parser_def init_parser_def
        V2_FIELDS_COUNT_def V2_PROTO_NUM_IDX_def V2_DST_PORT_IDX_def)
  have b: "given (flowlogs no_input_parser) = None
   \<and> given (outputfile no_input_parser) = Some ''output.txt''
   \<and> writable (world_with [] []) ''output.txt''
   \<and> analyze_flow_logs (world_with [] []) no_input_parser = (no_input_parser, Inr None)
   \<and> write_output_file (world_with [] []) no_input_parser
     = Inr (Some (''output.txt'', report_text no_input_parser))"
    by (simp add: no_input_parser_def init_parser_def given_def world_with_def
        analyze_flow_logs_def write_output_file_def)
  have c: "given (mapfile no_paths_parser) = None
   \<and> read_mappings_file (world_with [] []) no_paths_parser = Inr no_paths_parser
   \<and> tag_count (no_paths_parser\<lparr>errors := 1\<rparr>) = []"
    by (simp add: no_paths_parser_def init_parser_def given_def read_mappings_file_def)
  from a b c show ?thesis
    by (simp add: analyze_flow_logs_batch_def)
qed

text \<open>
  Claim C7, amended. With no tag-mapping path the loading of the tag mapping
  changes nothing, so a tag mapping that was empty stays empty; then every
  record that is counted resolves to \<open>Untagged\<close>: a valid record whose protocol
  number the table resolves increments \<open>Untagged\<close> and its combination; after
  any batch the count of \<open>Untagged\<close> has grown by as much as the sum of the
  combination counts and no other tag count has changed; and after a batch
  without unknown protocol numbers the count of \<open>Untagged\<close> has grown by the
  number of counted lines. With no output path no report is written, neither
  by the writer nor by a run. With no input path the run analyses nothing and
  writes nothing, whether or not an output path is given: the object is
  returned as it was.
\<close>

theorem absent_paths:
  "(given (mapfile p) = None \<longrightarrow> read_mappings_file w p = Inr p)
   \<and> (tag_map p = Map.empty \<longrightarrow>
        (\<forall>line port num name.
            valid_record line port num \<and> table p num = Some name \<longrightarrow>
            analyze_line p line =
              Inr (p\<lparr>tag_count := incr Untagged (tag_count p),
                      combinations_count := incr (port, lower name) (combinations_count p)\<rparr>))
        \<and> count_of (tag_count (fst (analyze_flow_logs_batch p lines))) Untagged
            + sum_counts (combinations_count p)
          = count_of (tag_count p) Untagged
            + sum_counts (combinations_count (fst (analyze_flow_logs_batch p lines)))
        \<and> (\<forall>t. t \<noteq> Untagged \<longrightarrow>
              count_of (tag_count (fst (analyze_flow_logs_batch p lines))) t
              = count_of (tag_count p) t)
        \<and> (list_all (protocol_known (table p)) lines \<longrightarrow>
              count_of (tag_count (fst (analyze_flow_logs_batch p lines))) Untagged
              = count_of (tag_count p) Untagged + length (counted_keys (table p) lines))
        \<and> set (map fst (tag_count (fst (analyze_flow_logs_batch p lines))))
          \<subseteq> insert Untagged (set (map fst (tag_count p))))
   \<and> (given (outputfile p) = None \<longrightarrow>
        write_output_file w p = Inr None
        \<and> (snd (analyze_flow_logs w p) = Inr None \<or> snd (analyze_flow_logs w p) = Inl IOError))
   \<and> (given (flowlogs p) = None \<longrightarrow> analyze_flow_logs w p = (p, Inr None))"
proof (intro conjI impI allI)
  assume "given (mapfile p) = None"
  then show "read_mappings_file w p = Inr p"
    by (simp add: read_mappings_file_def)
next
  fix line port num name
  assume a: "tag_map p = Map.empty"
    and b: "valid_record line port num \<and> table p num = Some name"
  from b have "valid_record line port num" and "table p num = Some name" by simp_all
  from untagged_line [OF a this]
  show "analyze_line p line =
              Inr (p\<lparr>tag_count := incr Untagged (tag_count p),
                      combinations_count := incr (port, lower name) (combinations_count p)\<rparr>)" .
next
  assume "tag_map p = Map.empty"
  from untagged_batch_any [OF this, of lines]
  show "count_of (tag_count (fst (analyze_flow_logs_batch p lines))) Untagged
            + sum_counts (combinations_count p)
          = count_of (tag_count p) Untagged
            + sum_counts (combinations_count (fst (analyze_flow_logs_batch p lines)))"
    by (simp add: analyze_flow_logs_batch_def)
next
  fix t
  assume "tag_map p = Map.empty" and "t \<noteq> Untagged"
  with untagged_batch_any [of p lines]
  show "count_of (tag_count (fst (analyze_flow_logs_batch p lines))) t = count_of (tag_count p) t"
    by (simp add: analyze_flow_logs_batch_def)
next
  assume "tag_map p = Map.empty" and "list_all (protocol_known (table p)) lines"
  from untagged_batch_known [OF this, of Untagged]
  show "count_of (tag_count (fst (analyze_flow_logs_batch p lines))) Untagged
        = count_of (tag_count p) Untagged + length (counted_keys (table p) lines)"
    by simp
next
  assume "tag_map p = Map.empty"
  from analyze_lines_untagged [OF this, of lines]
  show "set (map fst (tag_count (fst (analyze_flow_logs_batch p lines))))
        \<subseteq> insert Untagged (set (map fst (tag_count p)))"
    by (simp add: analyze_flow_logs_batch_def)
next
  assume "given (outputfile p) = None"
  then show "write_output_file w p = Inr None"
    by (simp add: write_output_file_def)
next
  assume "given (outputfile p) = None"
  then show "snd (analyze_flow_logs w p) = Inr None \<or> snd (analyze_flow_logs w p) = Inl IOError"
    by (simp add: analyze_flow_logs_def write_output_file_def submit_all_frame Let_def
        split: option.splits)
next
  assume "given (flowlogs p) = None"
  then show "analyze_flow_logs w p = (p, Inr None)"
    by (simp add: analyze_flow_logs_def)
qed

theorem absent_paths_witness:
  "given (mapfile no_paths_parser) = None
   \<and> tag_map no_paths_parser = Map.empty
   \<and> given (outputfile no_paths_parser) = None
   \<and> given (flowlogs no_paths_parser) = None
   \<and> valid_record line_49153 49153 6 \<and> table no_paths_parser 6 = Some ''tcp''
   \<and> list_all (protocol_known (table no_paths_parser)) test_lines
   \<and> length (counted_keys (table no_paths_parser) test_lines) = 3
   \<and> read_mappings_file (world_with [] []) no_paths_parser = Inr no_paths_parser
   \<and> analyze_line no_paths_parser line_49153
     = Inr (no_paths_parser\<lparr>tag_count := [(Untagged, 1)],
                             combinations_count := [((49153, ''tcp''), 1)]\<rparr>)
   \<and> count_of (tag_count (fst (analyze_flow_logs_batch no_paths_parser test_lines))) Untagged = 3
   \<and> sum_counts (combinations_count (fst (analyze_flow_logs_batch no_paths_parser test_lines)))
     = 3
   \<and> write_output_file (world_with [] []) no_paths_parser = Inr None
   \<and> analyze_flow_logs (world_with [] []) no_paths_parser = (no_paths_parser, Inr None)"
proof -
  have f: "table no_paths_parser = [6 \<mapsto> ''tcp'']" "tag_map no_paths_parser = Map.empty"
    "tag_count no_paths_parser = []" "combinations_count no_paths_parser = []"
    by (simp_all add: no_paths_parser_def init_parser_def)
  have h: "given (mapfile no_paths_parser) = None"
    "given (outputfile no_paths_parser) = None"
    "given (flowlogs no_paths_parser) = None"
    by (simp_all add: no_paths_parser_def init_parser_def given_def)
  have v: "valid_record line_49153 49153 6"
    by (simp add: valid_record_def fields_examples py_int_examples V2_FIELDS_COUNT_def
        V2_PROTO_NUM_IDX_def V2_DST_PORT_IDX_def)
  have t: "table no_paths_parser 6 = Some ''tcp''"
    by (simp add: f)
  have k: "list_all (protocol_known (table no_paths_parser)) test_lines"
    by (simp add: test_lines_def protocol_known_def fields_examples py_int_examples f
        V2_FIELDS_COUNT_def V2_PROTO_NUM_IDX_def)
  have n: "length (counted_keys (table no_paths_parser) test_lines) = 3"
    by (simp add: counted_keys_def map_filter_simps test_lines_def record_key_def
        fields_examples py_int_examples f V2_FIELDS_COUNT_def V2_PROTO_NUM_IDX_def
        V2_DST_PORT_IDX_def)
  note a = absent_paths [of no_paths_parser "world_with [] []" test_lines]
  from a f(2) v t
  have "analyze_line no_paths_parser line_49153
     = Inr (no_paths_parser\<lparr>tag_count := incr Untagged (tag_count no_paths_parser),
              combinations_count :=
                incr (49153, lower ''tcp'') (combinations_count no_paths_parser)\<rparr>)"
    by blast
  then have l: "analyze_line no_paths_parser line_49153
     = Inr (no_paths_parser\<lparr>tag_count := [(Untagged, 1)],
                             combinations_count := [((49153, ''tcp''), 1)]\<rparr>)"
    by (simp add: f lower_tcp)
  from a f(2) k
  have "count_of (tag_count (fst (analyze_flow_logs_batch no_paths_parser test_lines))) Untagged
        = count_of (tag_count no_paths_parser) Untagged
          + length (counted_keys (table no_paths_parser) test_lines)"
    by blast
  then have c: "count_of (tag_count (fst (analyze_flow_logs_batch no_paths_parser test_lines)))
             Untagged = 3"
    by (simp add: f(3) n)
  from a f(2)
  have "count_of (tag_count (fst (analyze_flow_logs_batch no_paths_parser test_lines))) Untagged
          + sum_counts (combinations_count no_paths_parser)
        = count_of (tag_count no_paths_parser) Untagged
          + sum_counts (combinations_count (fst (analyze_flow_logs_batch no_paths_parser
              test_lines)))"
    by blast
  with c have s: "sum_counts (combinations_count
             (fst (analyze_flow_logs_batch no_paths_parser test_lines))) = 3"
    by (simp add: f(3,4) sum_counts_def)
  from a h have r: "read_mappings_file (world_with [] []) no_paths_parser = Inr no_paths_parser"
    and w: "write_output_file (world_with [] []) no_paths_parser = Inr None"
    and g: "analyze_flow_logs (world_with [] []) no_paths_parser = (no_paths_parser, Inr None)"
    by blast+
  from h f(2) v t k n r l c s w g show ?thesis by blast
qed

subsection \<open>Mapping files that cannot be opened\<close>

text \<open>
  Claim C10 as stated fails in its last part: not every record resolves to
  \<open>Untagged\<close>. The tag-mapping file cannot be opened and is read as empty,
  without an exception; a record whose port field is no number is then
  rejected as ever, and resolves to no tag: the tag counts stay empty.
\<close>

theorem unreadable_mapping_counterexample:
  "csv_rows (world_with [] []) ''missing.csv'' = None
   \<and> given (mapfile missing_map_parser) = Some ''missing.csv''
   \<and> read_mappings_file (world_with [] []) missing_map_parser = Inr missing_map_parser
   \<and> analyze_flow_logs_batch missing_map_parser [line_bad_port]
     = (missing_map_parser\<lparr>errors := 1\<rparr>, None)
   \<and> tag_count (missing_map_parser\<lparr>errors := 1\<rparr>) = []"
proof -
  have a: "analyze_line missing_map_parser line_bad_port
           = Inr (missing_map_parser\<lparr>errors := 1\<rparr>)"
    using analyze_line_rejected [of line_bad_port missing_map_parser]
    by (simp add: fields_examples py_int_examples missing_map_parser_def init_parser_def
        V2_FIELDS_COUNT_def V2_PROTO_NUM_IDX_def V2_DST_PORT_IDX_def)
  have c: "csv_rows (world_with [] []) ''missing.csv'' = None
   \<and> given (mapfile missing_map_parser) = Some ''missing.csv''
   \<and> read_mappings_file (world_with [] []) missing_map_parser = Inr missing_map_parser
   \<and> tag_count (missing_map_parser\<lparr>errors := 1\<rparr>) = []"
    by (simp add: missing_map_parser_def init_parser_def given_def read_mappings_file_def
        TagMappings_process_def read_csv_file_def world_with_def)
  from a c show ?thesis
    by (simp add: analyze_flow_logs_batch_def)
qed

text \<open>
  Claim C10, amended. A mapping file that cannot be opened reads as a file
  without rows: \<^verbatim>\<open>read_csv_file\<close> returns the empty buffer, both loaders return
  an empty list and raise nothing, and loading from such a path returns the
  object unchanged without an exception. A tag mapping that was empty is then
  still empty, and the run proceeds with every record that is counted
  resolving to \<open>Untagged\<close>: a valid record whose protocol number the table
  resolves increments \<open>Untagged\<close> and its combination; after any batch the
  count of \<open>Untagged\<close> has grown by as much as the sum of the combination
  counts and no other tag count has changed; and after a batch without unknown
  protocol numbers the count of \<open>Untagged\<close> has grown by the number of counted
  lines.
\<close>

theorem unreadable_mapping_file:
  assumes "csv_rows w fname = None"
  shows "read_csv_file w fname = []
         \<and> TagMappings_process w fname = Inr []
         \<and> ProtoMappings_process w fname = Inr []
         \<and> (given (mapfile p) = Some fname \<longrightarrow> read_mappings_file w p = Inr p)
         \<and> (given (proto_map_file p) = Some fname \<longrightarrow> read_proto_mappings w p = Inr p)
         \<and> (given (mapfile p) = Some fname \<and> tag_map p = Map.empty \<longrightarrow>
              (\<exists>p'. read_mappings_file w p = Inr p' \<and> tag_map p' = Map.empty
                 \<and> (\<forall>line port num name.
                       valid_record line port num \<and> table p' num = Some name \<longrightarrow>
                       analyze_line p' line =
                         Inr (p'\<lparr>tag_count := incr Untagged (tag_count p'),
                                  combinations_count :=
                                    incr (port, lower name) (combinations_count p')\<rparr>))
                 \<and> count_of (tag_count (fst (analyze_flow_logs_batch p' lines))) Untagged
                     + sum_counts (combinations_count p')
                   = count_of (tag_count p') Untagged
                     + sum_counts (combinations_count (fst (analyze_flow_logs_batch p' lines)))
                 \<and> (\<forall>t. t \<noteq> Untagged \<longrightarrow>
                       count_of (tag_count (fst (analyze_flow_logs_batch p' lines))) t
                       = count_of (tag_count p') t)
                 \<and> (list_all (protocol_known (table p')) lines \<longrightarrow>
                       count_of (tag_count (fst (analyze_flow_logs_batch p' lines))) Untagged
                       = count_of (tag_count p') Untagged
                         + length (counted_keys (table p') lines))
                 \<and> set (map fst (tag_count (fst (analyze_flow_logs_batch p' lines))))
                   \<subseteq> insert Untagged (set (map fst (tag_count p')))))"
proof -
  from assms have r: "read_csv_file w fname = []"
    by (simp add: read_csv_file_def)
  then have t: "TagMappings_process w fname = Inr []"
    by (simp add: TagMappings_process_def)
  from r have q: "ProtoMappings_process w fname = Inr []"
    by (simp add: ProtoMappings_process_def)
  have m: "given (mapfile p) = Some fname \<longrightarrow> read_mappings_file w p = Inr p"
    by (simp add: read_mappings_file_def t)
  have n: "given (proto_map_file p) = Some fname \<longrightarrow> read_proto_mappings w p = Inr p"
    by (simp add: read_proto_mappings_def q)
  have u: "given (mapfile p) = Some fname \<and> tag_map p = Map.empty \<longrightarrow>
              (\<exists>p'. read_mappings_file w p = Inr p' \<and> tag_map p' = Map.empty
                 \<and> (\<forall>line port num name.
                       valid_record line port num \<and> table p' num = Some name \<longrightarrow>
                       analyze_line p' line =
                         Inr (p'\<lparr>tag_count := incr Untagged (tag_count p'),
                                  combinations_count :=
                                    incr (port, lower name) (combinations_count p')\<rparr>))
                 \<and> count_of (tag_count (fst (analyze_flow_logs_batch p' lines))) Untagged
                     + sum_counts (combinations_count p')
                   = count_of (tag_count p') Untagged
                     + sum_counts (combinations_count (fst (analyze_flow_logs_batch p' lines)))
                 \<and> (\<forall>t. t \<noteq> Untagged \<longrightarrow>
                       count_of (tag_count (fst (analyze_flow_logs_batch p' lines))) t
                       = count_of (tag_count p') t)
                 \<and> (list_all (protocol_known (table p')) lines \<longrightarrow>
                       count_of (tag_count (fst (analyze_flow_logs_batch p' lines))) Untagged
                       = count_of (tag_count p') Untagged
                         + length (counted_keys (table p') lines))
                 \<and> set (map fst (tag_count (fst (analyze_flow_logs_batch p' lines))))
                   \<subseteq> insert Untagged (set (map fst (tag_count p'))))"
  proof
    assume a: "given (mapfile p) = Some fname \<and> tag_map p = Map.empty"
    then have e: "tag_map p = Map.empty" by simp
    from a m have l: "read_mappings_file w p = Inr p" by simp
    have c1: "\<forall>line port num name.
               valid_record line port num \<and> table p num = Some name \<longrightarrow>
               analyze_line p line =
                 Inr (p\<lparr>tag_count := incr Untagged (tag_count p),
                         combinations_count := incr (port, lower name) (combinations_count p)\<rparr>)"
    proof (intro allI impI)
      fix line port num name
      assume b: "valid_record line port num \<and> table p num = Some name"
      then have "valid_record line port num" and "table p num = Some name" by simp_all
      from untagged_line [OF e this]
      show "analyze_line p line =
                 Inr (p\<lparr>tag_count := incr Untagged (tag_count p),
                         combinations_count := incr (port, lower name) (combinations_count p)\<rparr>)" .
    qed
    from untagged_batch_any [OF e, of lines]
    have c2: "count_of (tag_count (fst (analyze_flow_logs_batch p lines))) Untagged
                + sum_counts (combinations_count p)
              = count_of (tag_count p) Untagged
                + sum_counts (combinations_count (fst (analyze_flow_logs_batch p lines)))"
      and c3: "\<forall>t. t \<noteq> Untagged \<longrightarrow>
                 count_of (tag_count (fst (analyze_flow_logs_batch p lines))) t
                 = count_of (tag_count p) t"
      by (simp_all add: analyze_flow_logs_batch_def)
    have c4: "list_all (protocol_known (table p)) lines \<longrightarrow>
                count_of (tag_count (fst (analyze_flow_logs_batch p lines))) Untagged
                = count_of (tag_count p) Untagged + length (counted_keys (table p) lines)"
      using untagged_batch_known [OF e, of lines Untagged] by simp
    from analyze_lines_untagged [OF e, of lines]
    have c5: "set (map fst (tag_count (fst (analyze_flow_logs_batch p lines))))
              \<subseteq> insert Untagged (set (map fst (tag_count p)))"
      by (simp add: analyze_flow_logs_batch_def)
    from l e c1 c2 c3 c4 c5
    show "\<exists>p'. read_mappings_file w p = Inr p' \<and> tag_map p' = Map.empty
                 \<and> (\<forall>line port num name.
                       valid_record line port num \<and> table p' num = Some name \<longrightarrow>
                       analyze_line p' line =
                         Inr (p'\<lparr>tag_count := incr Untagged (tag_count p'),
                                  combinations_count :=
                                    incr (port, lower name) (combinations_count p')\<rparr>))
                 \<and> count_of (tag_count (fst (analyze_flow_logs_batch p' lines))) Untagged
                     + sum_counts (combinations_count p')
                   = count_of (tag_count p') Untagged
                     + sum_counts (combinations_count (fst (analyze_flow_logs_batch p' lines)))
                 \<and> (\<forall>t. t \<noteq> Untagged \<longrightarrow>
                       count_of (tag_count (fst (analyze_flow_logs_batch p' lines))) t
                       = count_of (tag_count p') t)
                 \<and> (list_all (protocol_known (table p')) lines \<longrightarrow>
                       count_of (tag_count (fst (analyze_flow_logs_batch p' lines))) Untagged
                       = count_of (tag_count p') Untagged
                         + length (counted_keys (table p') lines))
                 \<and> set (map fst (tag_count (fst (analyze_flow_logs_batch p' lines))))
                   \<subseteq> insert Untagged (set (map fst (tag_count p')))"
      by (intro exI [of _ p] conjI)
  qed
  from r t q m n u show ?thesis by (intro conjI)
qed

theorem unreadable_mapping_file_witness:
  "csv_rows (world_with [] []) ''missing.csv'' = None
   \<and> given (mapfile missing_map_parser) = Some ''missing.csv''
   \<and> given (proto_map_file missing_map_parser) = Some ''missing.csv''
   \<and> tag_map missing_map_parser = Map.empty
   \<and> list_all (protocol_known (table missing_map_parser)) test_lines
   \<and> length (counted_keys (table missing_map_parser) test_lines) = 3
   \<and> read_csv_file (world_with [] []) ''missing.csv'' = []
   \<and> read_mappings_file (world_with [] []) missing_map_parser = Inr missing_map_parser
   \<and> read_proto_mappings (world_with [] []) missing_map_parser = Inr missing_map_parser
   \<and> count_of (tag_count (fst (analyze_flow_logs_batch missing_map_parser test_lines)))
       Untagged = 3"
proof -
  have c: "csv_rows (world_with [] []) ''missing.csv'' = None"
    by (simp add: world_with_def)
  have f: "table missing_map_parser = [6 \<mapsto> ''tcp'']" "tag_map missing_map_parser = Map.empty"
    "tag_count missing_map_parser = []" "combinations_count missing_map_parser = []"
    by (simp_all add: missing_map_parser_def init_parser_def)
  have g: "given (mapfile missing_map_parser) = Some ''missing.csv''"
    "given (proto_map_file missing_map_parser) = Some ''missing.csv''"
    by (simp_all add: missing_map_parser_def init_parser_def given_def)
  have k: "list_all (protocol_known (table missing_map_parser)) test_lines"
    by (simp add: test_lines_def protocol_known_def fields_examples py_int_examples f
        V2_FIELDS_COUNT_def V2_PROTO_NUM_IDX_def)
  have n: "length (counted_keys (table missing_map_parser) test_lines) = 3"
    by (simp add: counted_keys_def map_filter_simps test_lines_def record_key_def
        fields_examples py_int_examples f V2_FIELDS_COUNT_def V2_PROTO_NUM_IDX_def
        V2_DST_PORT_IDX_def)
  note a = unreadable_mapping_file [OF c, of missing_map_parser test_lines]
  from a have r: "read_csv_file (world_with [] []) ''missing.csv'' = []"
    by blast
  from a g have m: "read_mappings_file (world_with [] []) missing_map_parser
                    = Inr missing_map_parser"
    and q: "read_proto_mappings (world_with [] []) missing_map_parser = Inr missing_map_parser"
    by blast+
  from a g(1) f(2) obtain p' where
    p': "read_mappings_file (world_with [] []) missing_map_parser = Inr p'"
    and u: "list_all (protocol_known (table p')) test_lines \<longrightarrow>
              count_of (tag_count (fst (analyze_flow_logs_batch p' test_lines))) Untagged
              = count_of (tag_count p') Untagged + length (counted_keys (table p') test_lines)"
    by blast
  from p' m have "p' = missing_map_parser" by simp
  with u k n have x: "count_of (tag_count (fst (analyze_flow_logs_batch missing_map_parser
                        test_lines))) Untagged = 3"
    by (simp add: f(3))
  from c g f(2) k n r m q x show ?thesis by blast
qed

end
